theory Spec2Isabelle
  imports Main "HOL-Library.Sublist" "HOL-Library.Monad_Syntax"
begin

section \<open>Text primitives of the scripts\<close>

text \<open>
  The scripts under \<^verbatim>\<open>Tools/\<close> read the project file as text and edit it line by line.
  A Python \<^verbatim>\<open>str\<close> is modelled as a \<^typ>\<open>string\<close>; a \<^typ>\<open>char\<close> stands for a code point
  below 256. Python's \<^verbatim>\<open>a in b\<close>, \<^verbatim>\<open>b.startswith(a)\<close> and \<^verbatim>\<open>b.endswith(a)\<close> on strings are
  \<^const>\<open>sublist\<close>, \<^const>\<open>prefix\<close> and \<^const>\<open>suffix\<close>.
\<close>

definition NL :: char where
  "NL = CHR 0x0A"

definition CR :: char where
  "CR = CHR 0x0D"

text \<open>\<^verbatim>\<open>str.isspace()\<close> of one character, which is also the class \<^verbatim>\<open>\s\<close> of \<^verbatim>\<open>re\<close>
  on \<^verbatim>\<open>str\<close> patterns: TAB, LF, VT, FF, CR, FS, GS, RS, US, space, NEL and NBSP.\<close>

definition isspace :: "char \<Rightarrow> bool" where
  "isspace c = (c \<in> set [CHR 0x09, CHR 0x0A, CHR 0x0B, CHR 0x0C, CHR 0x0D,
                          CHR 0x1C, CHR 0x1D, CHR 0x1E, CHR 0x1F, CHR 0x20, CHR 0x85, CHR 0xA0])"

text \<open>The character class \<^verbatim>\<open>[A-Fa-f0-9]\<close>.\<close>

definition ishex :: "char \<Rightarrow> bool" where
  "ishex c = (c \<in> set ''0123456789ABCDEFabcdef'')"

definition lstrip :: "string \<Rightarrow> string" where
  "lstrip s = dropWhile isspace s"

definition rstrip :: "string \<Rightarrow> string" where
  "rstrip s = rev (dropWhile isspace (rev s))"

definition strip :: "string \<Rightarrow> string" where
  "strip s = rstrip (lstrip s)"

text \<open>\<^verbatim>\<open>f.readlines()\<close> on the decoded text: the lines with their terminating newline kept;
  only the last line may lack one.\<close>

fun readlines :: "string \<Rightarrow> string list" where
  "readlines [] = []"
| "readlines (c # cs) =
     (if c = NL then [c] # readlines cs
      else (case readlines cs of [] \<Rightarrow> [[c]] | l # ls \<Rightarrow> (c # l) # ls))"

text \<open>Reading in text mode with the default \<^verbatim>\<open>newline=None\<close> translates \<^verbatim>\<open>\r\n\<close> and a lone
  \<^verbatim>\<open>\r\<close> to \<^verbatim>\<open>\n\<close>; writing leaves \<^verbatim>\<open>\n\<close> as it is (POSIX line separator).\<close>

fun universal_newlines :: "string \<Rightarrow> string" where
  "universal_newlines [] = []"
| "universal_newlines [c] = (if c = CR then [NL] else [c])"
| "universal_newlines (c # d # cs) =
     (if c = CR \<and> d = NL then NL # universal_newlines cs
      else if c = CR then NL # universal_newlines (d # cs)
      else c # universal_newlines (d # cs))"

section \<open>\<^verbatim>\<open>Tools/fix_missing_commas.py\<close>\<close>

text \<open>The lazy \<^verbatim>\<open>.*?\*/\<close> of \<^verbatim>\<open>id_regex\<close>: scan to the first \<^verbatim>\<open>*/\<close>; \<^verbatim>\<open>.\<close> does not match a newline.
  The result is the text after the \<^verbatim>\<open>*/\<close>.\<close>

fun comment_end :: "string \<Rightarrow> string option" where
  "comment_end [] = None"
| "comment_end (c # cs) =
     (if prefix ''*/'' (c # cs) then Some (drop 2 (c # cs))
      else if c = NL then None
      else comment_end cs)"

text \<open>\<^verbatim>\<open>id_regex = re.compile(r"^(\s*[A-Fa-f0-9]{24}\s/\*.*?\*/\s*)")\<close> applied with
  \<^verbatim>\<open>match\<close>: on a match the result is \<^verbatim>\<open>stripped[match.end():]\<close>.\<close>

definition id_regex_match :: "string \<Rightarrow> string option" where
  "id_regex_match s =
     (let s1 = dropWhile isspace s in
      if length s1 \<ge> 24 \<and> list_all ishex (take 24 s1) then
        (case drop 24 s1 of
           c # s2 \<Rightarrow>
             if isspace c \<and> prefix ''/*'' s2 then
               (case comment_end (drop 2 s2) of
                  None \<Rightarrow> None
                | Some s3 \<Rightarrow> Some (dropWhile isspace s3))
             else None
         | [] \<Rightarrow> None)
      else None)"

definition header :: string where
  "header = ''// !$*UTF8*$!''"

text \<open>The body of the loop of \<^verbatim>\<open>fix_commas\<close> is two consecutive blocks. The first one
  (source lines 27 to 53) appends a comma to a list-item line that lacks one.\<close>

definition fix_comma :: "string \<Rightarrow> string" where
  "fix_comma line =
     (let stripped = rstrip line in
      case id_regex_match stripped of
        None \<Rightarrow> line
      | Some rest \<Rightarrow>
          if \<not> suffix '','' (strip rest) \<and> \<not> suffix '';'' (strip rest) then
            (if CHR ''='' \<in> set rest then line
             else if \<not> suffix '','' stripped then stripped @ '','' @ [NL]
             else line)
          else line)"

text \<open>The second block (source lines 55 to 60) restores the header on the line of index 0.\<close>

definition fix_header :: "nat \<Rightarrow> string \<Rightarrow> string" where
  "fix_header i line =
     (if i = 0 \<and> prefix ''//'' line then
        (if strip line \<noteq> header then header @ [NL] else line)
      else line)"

definition fix_line :: "nat \<Rightarrow> string \<Rightarrow> string" where
  "fix_line i line = fix_header i (fix_comma line)"

text \<open>\<^verbatim>\<open>for i, line in enumerate(lines)\<close>, from index \<open>i\<close> on.\<close>

fun fix_lines :: "nat \<Rightarrow> string list \<Rightarrow> string list" where
  "fix_lines i [] = []"
| "fix_lines i (l # ls) = fix_line i l # fix_lines (Suc i) ls"

text \<open>The project file: \<open>None\<close> when it cannot be opened. \<^verbatim>\<open>fix_commas\<close> catches the
  exception, prints it and writes nothing.\<close>

type_synonym project_file = "string option"

definition fix_commas_text :: "string \<Rightarrow> string" where
  "fix_commas_text content = concat (fix_lines 0 (readlines content))"

definition fix_commas :: "project_file \<Rightarrow> project_file" where
  "fix_commas f = (case f of None \<Rightarrow> None
                   | Some bytes \<Rightarrow> Some (fix_commas_text (universal_newlines bytes)))"

text \<open>The shape of what \<^const>\<open>readlines\<close> returns: non-empty lines with no newline before
  their last character, all but the last one ending with a newline.\<close>

definition is_line :: "string \<Rightarrow> bool" where
  "is_line l = (l \<noteq> [] \<and> NL \<notin> set (butlast l))"

fun lines_ok :: "string list \<Rightarrow> bool" where
  "lines_ok [] = True"
| "lines_ok [l] = is_line l"
| "lines_ok (l # m # ls) = (is_line l \<and> last l = NL \<and> lines_ok (m # ls))"

section \<open>\<^verbatim>\<open>Tools/test_fix_header.py\<close>\<close>

text \<open>\<^verbatim>\<open>wipe_header\<close> replaces the first line by a blank line. On an empty file
  \<^verbatim>\<open>lines[0] = "\n"\<close> raises \<^verbatim>\<open>IndexError\<close> before the file is opened for writing: the
  exception is caught and the file stays as it is.\<close>

definition wipe_header :: "project_file \<Rightarrow> project_file" where
  "wipe_header f =
     (case f of
        None \<Rightarrow> None
      | Some bytes \<Rightarrow>
          (case readlines (universal_newlines bytes) of
             [] \<Rightarrow> Some bytes
           | l # ls \<Rightarrow> Some (concat ([NL] # ls))))"

section \<open>\<^verbatim>\<open>Tools/validate_pbxproj_structure.py\<close>\<close>

text \<open>What \<^verbatim>\<open>validate\<close> prints: exactly one of four messages.\<close>

datatype report =
  Structure_valid
| Unexpected_closing nat char
| Expected_but_found nat char nat char
| Unclosed_at_EOF char nat

text \<open>\<^verbatim>\<open>Unexpected_closing line_num c\<close>, \<^verbatim>\<open>Expected_but_found line_num expected start_line c\<close>
  and \<^verbatim>\<open>Unclosed_at_EOF expected start_line\<close> carry the values the messages are formatted
  with.\<close>

text \<open>\<^verbatim>\<open>clean_line = line.split("//")[0]\<close>: the text before the first \<^verbatim>\<open>//\<close>.\<close>

fun before_comment :: "string \<Rightarrow> string" where
  "before_comment (c # d # cs) =
     (if c = CHR ''/'' \<and> d = CHR ''/'' then [] else c # before_comment (d # cs))"
| "before_comment cs = cs"

text \<open>The stack of expected closers with the line each was opened on; the head of the list
  is the top of the stack (the end of the Python list).\<close>

type_synonym stack = "(char \<times> nat) list"

text \<open>The \<^verbatim>\<open>while j < len(chars)\<close> loop over one line. \<open>prev\<close> is \<^verbatim>\<open>chars[j - 1]\<close>, absent at
  \<^verbatim>\<open>j = 0\<close>. The result is the message of the early \<^verbatim>\<open>return\<close>, or the stack at the end of
  the line.\<close>

fun scan_chars :: "nat \<Rightarrow> char option \<Rightarrow> bool \<Rightarrow> stack \<Rightarrow> string \<Rightarrow> report + stack" where
  "scan_chars line_num prev in_string st [] = Inr st"
| "scan_chars line_num prev in_string st (c # cs) =
     (let in_string' =
            (if c = CHR 0x22 then (if prev = Some (CHR 0x5C) then in_string else \<not> in_string)
             else in_string)
      in if \<not> in_string' then
           (if c = CHR ''{'' then
              scan_chars line_num (Some c) in_string' ((CHR ''}'', line_num) # st) cs
            else if c = CHR ''('' then
              scan_chars line_num (Some c) in_string' ((CHR '')'', line_num) # st) cs
            else if c = CHR ''}'' \<or> c = CHR '')'' then
              (case st of
                 [] \<Rightarrow> Inl (Unexpected_closing line_num c)
               | (expected, start_line) # st' \<Rightarrow>
                   if c \<noteq> expected then Inl (Expected_but_found line_num expected start_line c)
                   else scan_chars line_num (Some c) in_string' st' cs)
            else scan_chars line_num (Some c) in_string' st cs)
         else scan_chars line_num (Some c) in_string' st cs)"

text \<open>\<^verbatim>\<open>for i, line in enumerate(lines)\<close> from index \<open>i\<close> on, then the test of the stack at the
  end of the file.\<close>

fun validate_lines :: "nat \<Rightarrow> stack \<Rightarrow> string list \<Rightarrow> report" where
  "validate_lines i st [] =
     (case st of [] \<Rightarrow> Structure_valid
      | (expected, start_line) # _ \<Rightarrow> Unclosed_at_EOF expected start_line)"
| "validate_lines i st (line # ls) =
     (case scan_chars (i + 1) None False st (before_comment line) of
        Inl e \<Rightarrow> e
      | Inr st' \<Rightarrow> validate_lines (Suc i) st' ls)"

definition validate_text :: "string \<Rightarrow> report" where
  "validate_text content = validate_lines 0 [] (readlines content)"

text \<open>\<open>None\<close>: the file could not be read and the \<^verbatim>\<open>except\<close> branch printed the exception.\<close>

definition validate :: "project_file \<Rightarrow> report option" where
  "validate f = map_option (\<lambda>bytes. validate_text (universal_newlines bytes)) f"

text \<open>The two messages that end the scan early.\<close>

fun early_return :: "report \<Rightarrow> bool" where
  "early_return (Unexpected_closing _ _) = True"
| "early_return (Expected_but_found _ _ _ _) = True"
| "early_return _ = False"

text \<open>The variables of the scan when the characters of \<open>s\<close> have been read without an early
  return: \<^verbatim>\<open>in_string\<close>, and the character before the current one.\<close>

fun in_string_after :: "char option \<Rightarrow> bool \<Rightarrow> string \<Rightarrow> bool" where
  "in_string_after prev in_string [] = in_string"
| "in_string_after prev in_string (c # cs) =
     in_string_after (Some c)
       (if c = CHR 0x22 then (if prev = Some (CHR 0x5C) then in_string else \<not> in_string)
        else in_string) cs"

fun prev_after :: "char option \<Rightarrow> string \<Rightarrow> char option" where
  "prev_after prev [] = prev"
| "prev_after prev (c # cs) = prev_after (Some c) cs"

text \<open>The loop over the lines without the test that follows it: the report of the early
  return, or the stack when the last line has been scanned.\<close>

fun scan_lines :: "nat \<Rightarrow> stack \<Rightarrow> string list \<Rightarrow> report + stack" where
  "scan_lines i st [] = Inr st"
| "scan_lines i st (line # ls) =
     (case scan_chars (i + 1) None False st (before_comment line) of
        Inl e \<Rightarrow> Inl e
      | Inr st' \<Rightarrow> scan_lines (Suc i) st' ls)"

section \<open>\<^verbatim>\<open>generate_id\<close> of the \<^verbatim>\<open>add_*\<close> scripts\<close>

text \<open>\<^verbatim>\<open>uuid.uuid4()\<close> draws a random 128-bit UUID; its value \<open>u < 2 ^ 128\<close> is the input of the
  model. \<^verbatim>\<open>.hex\<close> is the value as 32 lower-case hexadecimal digits, most significant first.\<close>

definition hexdigit :: "nat \<Rightarrow> char" where
  "hexdigit d = ''0123456789abcdef'' ! (d mod 16)"

definition uuid_hex :: "nat \<Rightarrow> string" where
  "uuid_hex u = map (\<lambda>i. hexdigit (u div 16 ^ (31 - i))) [0..<32]"

text \<open>\<^verbatim>\<open>str.upper()\<close> on one character, for the ASCII letters.\<close>

definition upper_char :: "char \<Rightarrow> char" where
  "upper_char c =
     (case map_of (zip ''abcdefghijklmnopqrstuvwxyz'' ''ABCDEFGHIJKLMNOPQRSTUVWXYZ'') c of
        None \<Rightarrow> c
      | Some C \<Rightarrow> C)"

text \<open>\<^verbatim>\<open>return uuid.uuid4().hex[:24].upper()\<close>\<close>

definition generate_id :: "nat \<Rightarrow> string" where
  "generate_id u = map upper_char (take 24 (uuid_hex u))"

text \<open>The loop of \<^verbatim>\<open>add_app_files\<close> that creates the new build-file records (source lines
  228 to 232): one \<^verbatim>\<open>generate_id()\<close> per file to add. \<open>rng k\<close> is the value of the \<open>k\<close>-th
  UUID drawn. The result lists, for each file, the new id, the comment name and the
  definition line appended to the file.\<close>

definition build_file_definition :: "string \<Rightarrow> string \<Rightarrow> string \<Rightarrow> string" where
  "build_file_definition build_file_id comment_name file_ref_id =
     [CHR 0x09, CHR 0x09] @ build_file_id @ '' /* '' @ comment_name
       @ '' in Sources */ = {isa = PBXBuildFile; fileRef = '' @ file_ref_id
       @ '' /* '' @ comment_name @ '' */; };''"

fun new_build_files ::
  "(nat \<Rightarrow> nat) \<Rightarrow> nat \<Rightarrow> (string \<times> string) list \<Rightarrow> (string \<times> string \<times> string) list" where
  "new_build_files rng k [] = []"
| "new_build_files rng k ((file_ref_id, comment_name) # files_to_add) =
     (let build_file_id = generate_id (rng k)
      in (build_file_id, comment_name,
          build_file_definition build_file_id comment_name file_ref_id)
         # new_build_files rng (Suc k) files_to_add)"

section \<open>The regular expressions of the scripts\<close>

text \<open>
  A piece of a pattern is a function from the text at the current position to the result
  of matching there: \<open>None\<close> when it does not match, otherwise the captured value or the
  text that follows the match. Pieces are chained with \<open>\<bind>\<close>, so that each piece has the
  whole remainder of the pattern as its continuation, which is what backtracking needs.
\<close>

text \<open>A literal.\<close>

definition lit :: "string \<Rightarrow> string \<Rightarrow> string option" where
  "lit p s = (if prefix p s then Some (drop (length p) s) else None)"

text \<open>\<^verbatim>\<open>\s\<close>: one whitespace character.\<close>

fun space1 :: "string \<Rightarrow> string option" where
  "space1 [] = None"
| "space1 (c # cs) = (if isspace c then Some cs else None)"

text \<open>\<^verbatim>\<open>([A-Fa-f0-9]{24})\<close>: the 24 captured characters and the text after them.\<close>

definition hex24 :: "string \<Rightarrow> (string \<times> string) option" where
  "hex24 s = (if 24 \<le> length s \<and> list_all ishex (take 24 s)
              then Some (take 24 s, drop 24 s) else None)"

text \<open>\<^verbatim>\<open>(.*?)\<close> followed by the continuation \<open>k\<close>: the continuation is tried first and one more
  character is consumed only when it fails. Without \<^verbatim>\<open>re.DOTALL\<close> the dot does not match a
  newline. The result is the captured text with the result of the continuation.\<close>

fun lazy_group :: "bool \<Rightarrow> (string \<Rightarrow> 'a option) \<Rightarrow> string \<Rightarrow> (string \<times> 'a) option" where
  "lazy_group dotall k [] = map_option (Pair []) (k [])"
| "lazy_group dotall k (c # cs) =
     (case k (c # cs) of
        Some r \<Rightarrow> Some ([], r)
      | None \<Rightarrow>
          if c = NL \<and> \<not> dotall then None
          else map_option (\<lambda>(g, r). (c # g, r)) (lazy_group dotall k cs))"

text \<open>\<^verbatim>\<open>.*?\<close> without a group.\<close>

definition lazy :: "bool \<Rightarrow> (string \<Rightarrow> 'a option) \<Rightarrow> string \<Rightarrow> 'a option" where
  "lazy dotall k s = map_option snd (lazy_group dotall k s)"

text \<open>\<^verbatim>\<open>re.search\<close>: the pattern is tried at every position from the left.\<close>

fun re_search :: "(string \<Rightarrow> 'a option) \<Rightarrow> string \<Rightarrow> 'a option" where
  "re_search m [] = m []"
| "re_search m (c # cs) = (case m (c # cs) of Some r \<Rightarrow> Some r | None \<Rightarrow> re_search m cs)"

text \<open>\<^verbatim>\<open>re.findall(r"([A-Fa-f0-9]{24})", block)\<close>: the matches from left to right, without
  overlap.\<close>

function findall_hex24 :: "string \<Rightarrow> string list" where
  "findall_hex24 [] = []"
| "findall_hex24 (c # cs) =
     (if 24 \<le> length (c # cs) \<and> list_all ishex (take 24 (c # cs))
      then take 24 (c # cs) # findall_hex24 (drop 23 cs)
      else findall_hex24 cs)"
  by pat_completeness auto
termination
  by (relation "measure length") auto

text \<open>\<^verbatim>\<open>content.split("\n")\<close> and \<^verbatim>\<open>"\n".join(lines)\<close>.\<close>

fun split_nl :: "string \<Rightarrow> string list" where
  "split_nl [] = [[]]"
| "split_nl (c # cs) =
     (if c = NL then [] # split_nl cs
      else (case split_nl cs of [] \<Rightarrow> [[c]] | l # ls \<Rightarrow> (c # l) # ls))"

fun join_nl :: "string list \<Rightarrow> string" where
  "join_nl [] = []"
| "join_nl [l] = l"
| "join_nl (l # m # ls) = l @ NL # join_nl (m # ls)"

section \<open>\<^verbatim>\<open>Tools/nuke_ids.py\<close>\<close>

definition nuke_target_ids :: "string list" where
  "nuke_target_ids =
     [''C9FBC3A09F424FB4B86AA3BD'', ''A139CF9EFAAE92F66141FC20'', ''8C7615F8D0AF42BFA2BB60D1'',
      ''A0CORE292F0ABCDE00000001'', ''BC2A68F522DC4FE49D141649'', ''BB7A5BD961FC5DDE5E252E17'',
      ''09D3C85A68D88363F77CBB6A'', ''815DB79DB4126C68EBAF51E7'', ''1F6029DA5C07EB1C29654A0D'',
      ''748B1C8D5C924066E5A8F7D3'', ''5213F7FF0517428AB4286AAA'', ''A0CORE2C2F0ABCDE00000001'',
      ''12914A324698453891FE1ACF'', ''A0CORE2A2F0ABCDE00000001'']"

text \<open>The inner loop of \<^verbatim>\<open>nuke\<close>: \<^verbatim>\<open>hit\<close> is set when some target id occurs in the line.\<close>

definition hit :: "string list \<Rightarrow> string \<Rightarrow> bool" where
  "hit target_ids line = list_ex (\<lambda>tid. sublist tid line) target_ids"

text \<open>\<^verbatim>\<open>nuke\<close> with the list of ids as a parameter: the text written back and the count
  printed. \<open>None\<close>: the file could not be read; nothing is written.\<close>

definition nuke_ids :: "string list \<Rightarrow> project_file \<Rightarrow> (string \<times> nat) option" where
  "nuke_ids target_ids f =
     (case f of
        None \<Rightarrow> None
      | Some bytes \<Rightarrow>
          (let lines = readlines (universal_newlines bytes)
           in Some (concat (filter (\<lambda>line. \<not> hit target_ids line) lines),
                    length (filter (hit target_ids) lines))))"

definition nuke :: "project_file \<Rightarrow> (string \<times> nat) option" where
  "nuke f = nuke_ids nuke_target_ids f"

section \<open>\<^verbatim>\<open>Tools/remove_ghost_files.py\<close>\<close>

definition sources_phase_id :: string where
  "sources_phase_id = ''A0TEST122F0ABCDE00000001''"

text \<open>\<^verbatim>\<open>re.escape(sources_phase_id) + r"\s/\*\sSources\s\*/\s=\s\{.*?files\s=\s\((.*?)\);"\<close>
  with \<^verbatim>\<open>re.DOTALL\<close>. The id has only letters and digits, which \<^verbatim>\<open>re.escape\<close> leaves as they
  are. \<open>phase_regex_span\<close> gives group 1 with the text that follows the match;
  \<open>phase_regex\<close> gives group 1.\<close>

definition phase_regex_span :: "string \<Rightarrow> string \<Rightarrow> (string \<times> string) option" where
  "phase_regex_span phase_id s =
     lit phase_id s \<bind> space1 \<bind> lit ''/*'' \<bind> space1 \<bind> lit ''Sources'' \<bind> space1
       \<bind> lit ''*/'' \<bind> space1 \<bind> lit ''='' \<bind> space1 \<bind> lit ''{''
       \<bind> lazy True (\<lambda>s1. lit ''files'' s1 \<bind> space1 \<bind> lit ''='' \<bind> space1 \<bind> lit ''(''
                           \<bind> lazy_group True (lit '');''))"

definition phase_regex :: "string \<Rightarrow> string \<Rightarrow> string option" where
  "phase_regex phase_id s = map_option fst (phase_regex_span phase_id s)"

text \<open>\<^verbatim>\<open>re.escape(build_id) + r".*?fileRef\s=\s([A-Fa-f0-9]{24})"\<close>; the result is group 1.\<close>

definition build_def_regex :: "string \<Rightarrow> string \<Rightarrow> string option" where
  "build_def_regex build_id s =
     map_option fst
       (lit build_id s
          \<bind> lazy False (\<lambda>s1. lit ''fileRef'' s1 \<bind> space1 \<bind> lit ''='' \<bind> space1 \<bind> hex24))"

text \<open>\<^verbatim>\<open>re.escape(file_ref_id) + r".*?path\s=\s(.*?);"\<close>; the result is group 1.\<close>

definition file_ref_regex :: "string \<Rightarrow> string \<Rightarrow> string option" where
  "file_ref_regex file_ref_id s =
     map_option fst
       (lit file_ref_id s
          \<bind> lazy False (\<lambda>s1. lit ''path'' s1 \<bind> space1 \<bind> lit ''='' \<bind> space1
                               \<bind> lazy_group False (lit '';'')))"

text \<open>\<^verbatim>\<open>os.path.isabs\<close>, \<^verbatim>\<open>os.path.basename\<close> and \<^verbatim>\<open>os.path.join(a, b)\<close> for a directory
  \<open>a\<close> that does not end with a slash, on POSIX.\<close>

definition isabs :: "string \<Rightarrow> bool" where
  "isabs p = prefix ''/'' p"

definition basename :: "string \<Rightarrow> string" where
  "basename p = rev (takeWhile (\<lambda>c. c \<noteq> CHR ''/'') (rev p))"

definition path_join :: "string \<Rightarrow> string \<Rightarrow> string" where
  "path_join a b = (if prefix ''/'' b then b else a @ ''/'' @ b)"

text \<open>The body of the loop over \<^verbatim>\<open>build_file_ids\<close> (source lines 45 to 99): whether
  \<^verbatim>\<open>build_id\<close> is appended to \<^verbatim>\<open>ghost_build_ids\<close>. \<open>path_exists\<close> is \<^verbatim>\<open>os.path.exists\<close>, the state
  of the disk.\<close>

definition is_ghost :: "(string \<Rightarrow> bool) \<Rightarrow> string \<Rightarrow> string \<Rightarrow> bool" where
  "is_ghost path_exists content build_id =
     (case re_search (build_def_regex build_id) content of
        None \<Rightarrow> False
      | Some file_ref_id \<Rightarrow>
          (case re_search (file_ref_regex file_ref_id) content of
             None \<Rightarrow> False
           | Some group1 \<Rightarrow>
               (let path = filter (\<lambda>c. c \<noteq> CHR 0x22) group1 in
                if \<not> isabs path then
                  (let potential_paths =
                         [path_join ''MomentumFinance'' path,
                          path_join ''MomentumFinance/MomentumFinanceTests'' (basename path)];
                       found = list_ex path_exists potential_paths;
                       found' = (if \<not> found then (if path_exists path then True else found)
                                 else found)
                   in \<not> found')
                else False)))"

text \<open>The first part of \<^verbatim>\<open>remove_ghost_files\<close> (source lines 26 to 99): \<open>None\<close> when the files
  block of the phase is not found, otherwise \<^verbatim>\<open>ghost_build_ids\<close>.\<close>

definition ghost_build_ids :: "(string \<Rightarrow> bool) \<Rightarrow> string \<Rightarrow> string list option" where
  "ghost_build_ids path_exists content =
     (case re_search (phase_regex sources_phase_id) content of
        None \<Rightarrow> None
      | Some files_block \<Rightarrow>
          Some (filter (is_ghost path_exists content) (findall_hex24 files_block)))"

text \<open>The test of one line in the second part (source lines 122 to 131).\<close>

definition is_ghost_line :: "string list \<Rightarrow> string \<Rightarrow> bool" where
  "is_ghost_line ghosts line =
     list_ex (\<lambda>ghost_id. sublist ghost_id line \<and> sublist (ghost_id @ '' /*'') line) ghosts"

definition remove_ghost_lines :: "string list \<Rightarrow> string \<Rightarrow> string" where
  "remove_ghost_lines ghosts content =
     join_nl (filter (\<lambda>line. \<not> is_ghost_line ghosts line) (split_nl content))"

text \<open>\<^verbatim>\<open>remove_ghost_files\<close>: the file after the run. The function returns without writing
  when the file cannot be read, when the files block is not found and when no ghost was
  identified; otherwise it writes the filtered text.\<close>

definition remove_ghost_files :: "(string \<Rightarrow> bool) \<Rightarrow> project_file \<Rightarrow> project_file" where
  "remove_ghost_files path_exists f =
     (case f of
        None \<Rightarrow> None
      | Some bytes \<Rightarrow>
          (let content = universal_newlines bytes in
           case ghost_build_ids path_exists content of
             None \<Rightarrow> Some bytes
           | Some ghosts \<Rightarrow>
               if length ghosts = 0 then Some bytes
               else Some (remove_ghost_lines ghosts content)))"

section \<open>\<^verbatim>\<open>Tools/repair_braces.py\<close>\<close>








section \<open>\<^verbatim>\<open>Tools/add_app_files_to_target.py\<close>\<close>

text \<open>Step 3a of the candidate loop (source lines 125 to 133): the ids in the files block
  of the Sources phase, none when the block is not found.\<close>

definition existing_build_files :: "string \<Rightarrow> string \<Rightarrow> string list" where
  "existing_build_files phase_id content =
     (case re_search (phase_regex phase_id) content of
        None \<Rightarrow> []
      | Some block \<Rightarrow> findall_hex24 block)"

text \<open>The text looked for by the exact test of step 3b (source line 144).\<close>

definition exact_definition :: "string \<Rightarrow> string \<Rightarrow> string \<Rightarrow> string" where
  "exact_definition bfid comment_name file_ref_id =
     bfid @ '' /* '' @ comment_name @ '' in Sources */ = {isa = PBXBuildFile; fileRef = ''
       @ file_ref_id"

text \<open>\<^verbatim>\<open>re.escape(bfid) + r".*?fileRef = " + re.escape(file_ref_id)\<close> of the relaxed test; both
  ids are made of hexadecimal digits, which \<^verbatim>\<open>re.escape\<close> leaves as they are.\<close>

definition relaxed_regex :: "string \<Rightarrow> string \<Rightarrow> string \<Rightarrow> string option" where
  "relaxed_regex bfid file_ref_id s =
     lit bfid s \<bind> lazy False (lit (''fileRef = '' @ file_ref_id))"

text \<open>Step 3b (source lines 139 to 161): the loop over \<^verbatim>\<open>existing_build_files\<close> that sets
  \<^verbatim>\<open>is_already_added\<close> and breaks.\<close>

definition is_already_added :: "string \<Rightarrow> string list \<Rightarrow> string \<Rightarrow> string \<Rightarrow> bool" where
  "is_already_added content existing comment_name file_ref_id =
     list_ex (\<lambda>bfid.
        sublist (exact_definition bfid comment_name file_ref_id) content
        \<or> (sublist bfid content \<and> sublist (''fileRef = '' @ file_ref_id) content
            \<and> re_search (relaxed_regex bfid file_ref_id) content \<noteq> None)) existing"

text \<open>The body of the candidate loop (source lines 82 to 201) for one match
  \<^verbatim>\<open>(file_ref_id, comment_name, file_path)\<close> of the file-reference pattern: whether the file
  is appended to \<^verbatim>\<open>files_to_add\<close>. \<open>on_disk\<close> is the \<^verbatim>\<open>os.walk\<close> search of the five source
  directories for the base name.\<close>

definition should_add ::
  "(string \<Rightarrow> bool) \<Rightarrow> string \<Rightarrow> string \<Rightarrow> string \<times> string \<times> string \<Rightarrow> bool" where
  "should_add on_disk phase_id content = (\<lambda>(file_ref_id, comment_name, file_path).
     if \<not> suffix ''.swift'' file_path then False
     else if sublist ''Tests'' comment_name \<or> sublist ''Test'' file_path then False
     else if sublist ''MomentumFinanceCore'' file_path then False
     else if is_already_added content (existing_build_files phase_id content)
               comment_name file_ref_id then False
     else on_disk (basename file_path))"

definition files_to_add ::
  "(string \<Rightarrow> bool) \<Rightarrow> string \<Rightarrow> string \<Rightarrow> (string \<times> string \<times> string) list
     \<Rightarrow> (string \<times> string) list" where
  "files_to_add on_disk phase_id content file_refs =
     map (\<lambda>(file_ref_id, comment_name, file_path). (file_ref_id, comment_name))
       (filter (should_add on_disk phase_id content) file_refs)"





section \<open>Inputs from outside the file\<close>

text \<open>The state of the disk as \<^verbatim>\<open>os.path.exists\<close> and \<^verbatim>\<open>os.walk\<close> see it: a disk that holds
  exactly the listed paths, and a disk on which every path asked for is found.\<close>

definition disk_with :: "string list \<Rightarrow> string \<Rightarrow> bool" where
  "disk_with paths p = (p \<in> set paths)"

definition full_disk :: "string \<Rightarrow> bool" where
  "full_disk p = True"

text \<open>The UUIDs that \<^verbatim>\<open>uuid.uuid4()\<close> returns, in the order of the calls.\<close>

definition draws :: "nat list \<Rightarrow> nat \<Rightarrow> nat" where
  "draws us k = (if k < length us then us ! k else 0)"

section \<open>The comma-repair pass is idempotent\<close>


lemma rstrip_snoc_space: "isspace c \<Longrightarrow> rstrip (s @ [c]) = rstrip s"
  by (simp add: rstrip_def)

lemma rstrip_snoc_nonspace: "\<not> isspace c \<Longrightarrow> rstrip (s @ [c]) = s @ [c]"
  by (simp add: rstrip_def)

lemma rstrip_decomp: "\<exists>t. s = rstrip s @ t \<and> (\<forall>c\<in>set t. isspace c)"
proof -
  have "rev s = takeWhile isspace (rev s) @ dropWhile isspace (rev s)" by simp
  then have "s = rev (dropWhile isspace (rev s)) @ rev (takeWhile isspace (rev s))"
    by (metis rev_append rev_rev_ident)
  moreover have "\<forall>c\<in>set (rev (takeWhile isspace (rev s))). isspace c"
    by (auto dest: set_takeWhileD)
  ultimately show ?thesis unfolding rstrip_def by blast
qed

lemma rstrip_last: "rstrip s \<noteq> [] \<Longrightarrow> \<not> isspace (last (rstrip s))"
  unfolding rstrip_def
  by (metis (full_types) dropWhile_eq_Nil_conv hd_dropWhile last_rev rev_is_Nil_conv)

lemma set_rstrip: "set (rstrip s) \<subseteq> set s"
  unfolding rstrip_def by (auto dest: set_dropWhileD)

lemma isspace_NL: "isspace NL" by (simp add: isspace_def NL_def)
lemma not_isspace_comma: "\<not> isspace CHR '',''" by (simp add: isspace_def)

lemma dropWhile_snoc_nonspace:
  "\<not> isspace c \<Longrightarrow> dropWhile isspace (s @ [c]) = dropWhile isspace s @ [c]"
  by (simp add: dropWhile_append)

lemma comment_end_append:
  "comment_end s = Some r \<Longrightarrow> comment_end (s @ t) = Some (r @ t)"
proof (induction s)
  case Nil then show ?case by simp
next
  case (Cons c cs)
  show ?case
  proof (cases "prefix ''*/'' (c # cs)")
    case True
    then obtain z where z: "c # cs = ''*/'' @ z" by (auto simp: prefix_def)
    with Cons.prems have "r = z" by simp
    moreover have "prefix ''*/'' ((c # cs) @ t)" using True by (metis prefix_prefix)
    ultimately show ?thesis using z by (metis (no_types) append_Cons append_Nil comment_end.simps(2) drop0 drop_Suc_Cons numeral_2_eq_2 append.assoc)
  next
    case False
    then have np: "\<not> prefix ''*/'' (c # (cs @ t))"
      using Cons.prems by (cases cs) (auto split: if_splits)
    from False Cons.prems have "c \<noteq> NL" and "comment_end cs = Some r"
      by (auto split: if_splits)
    moreover have "comment_end (c # (cs @ t)) = comment_end (cs @ t)"
      using np \<open>c \<noteq> NL\<close> by (simp only: comment_end.simps if_False)
    ultimately show ?thesis using Cons.IH by simp
  qed
qed


lemma id_regex_match_snoc:
  assumes m: "id_regex_match s = Some rest" and c: "\<not> isspace c"
  shows "id_regex_match (s @ [c]) = Some (rest @ [c])"
proof -
  define s1 where "s1 = dropWhile isspace s"
  from m have len: "length s1 \<ge> 24" and hex: "list_all ishex (take 24 s1)"
    unfolding id_regex_match_def s1_def Let_def by (auto split: if_splits)
  from m len hex obtain d s2 where d: "drop 24 s1 = d # s2"
    unfolding id_regex_match_def s1_def Let_def by (auto split: list.splits)
  from m len hex d have sp: "isspace d" and pre: "prefix ''/*'' s2"
    unfolding id_regex_match_def s1_def Let_def by (auto split: if_splits)
  from m len hex d sp pre obtain s3 where s3: "comment_end (drop 2 s2) = Some s3"
    and rest: "rest = dropWhile isspace s3"
    unfolding id_regex_match_def s1_def Let_def by (auto split: option.splits)
  have a1: "dropWhile isspace (s @ [c]) = s1 @ [c]"
    unfolding s1_def using c by (rule dropWhile_snoc_nonspace)
  have a2: "take 24 (s1 @ [c]) = take 24 s1" using len by simp
  have a3: "drop 24 (s1 @ [c]) = d # (s2 @ [c])" using len d by simp
  have a4: "prefix ''/*'' (s2 @ [c])" using pre by (metis prefix_prefix)
  from pre have "length s2 \<ge> 2" by (auto simp: prefix_def)
  then have a5: "drop 2 (s2 @ [c]) = drop 2 s2 @ [c]" by simp
  have a6: "comment_end (drop 2 s2 @ [c]) = Some (s3 @ [c])"
    using s3 by (rule comment_end_append)
  have a7: "dropWhile isspace (s3 @ [c]) = rest @ [c]"
    unfolding rest using c by (rule dropWhile_snoc_nonspace)
  have a0: "24 \<le> length (s1 @ [c])" using len by simp
  show ?thesis
    by (simp only: id_regex_match_def Let_def a0 a1 a2 a3 a4 a5 a6 a7 hex sp
        list.case option.case if_True simp_thms)
qed

lemma strip_snoc_nonspace: "\<not> isspace c \<Longrightarrow> strip (r @ [c]) = lstrip r @ [c]"
  by (simp add: strip_def lstrip_def dropWhile_snoc_nonspace rstrip_snoc_nonspace)

lemma rstrip_comma_NL: "rstrip (rstrip l @ '','' @ [NL]) = rstrip l @ '',''"
proof -
  have "rstrip (rstrip l @ '','' @ [NL]) = rstrip ((rstrip l @ '','') @ [NL])" by simp
  also have "\<dots> = rstrip (rstrip l @ '','')" using isspace_NL by (rule rstrip_snoc_space)
  also have "\<dots> = rstrip l @ '',''" using not_isspace_comma by (rule rstrip_snoc_nonspace)
  finally show ?thesis .
qed

lemma fix_comma_cases:
  "fix_comma l = l \<or>
   (fix_comma l = rstrip l @ '','' @ [NL] \<and> (\<exists>rest. id_regex_match (rstrip l) = Some rest))"
  unfolding fix_comma_def Let_def by (auto split: option.splits)

lemma fix_comma_idem: "fix_comma (fix_comma l) = fix_comma l"
proof -
  from fix_comma_cases [of l] show ?thesis
  proof
    assume "fix_comma l = l" then show ?thesis by simp
  next
    assume "fix_comma l = rstrip l @ '','' @ [NL] \<and> (\<exists>rest. id_regex_match (rstrip l) = Some rest)"
    then obtain rest where eq: "fix_comma l = rstrip l @ '','' @ [NL]"
      and m: "id_regex_match (rstrip l) = Some rest" by blast
    have m': "id_regex_match (rstrip l @ '','') = Some (rest @ '','')"
      using m not_isspace_comma by (rule id_regex_match_snoc)
    have "suffix '','' (strip (rest @ '',''))"
      using strip_snoc_nonspace [OF not_isspace_comma] by (simp add: suffix_def)
    then have "fix_comma (rstrip l @ '','' @ [NL]) = rstrip l @ '','' @ [NL]"
      unfolding fix_comma_def Let_def rstrip_comma_NL m' by simp
    then show ?thesis by (simp add: eq)
  qed
qed

lemma fix_comma_header: "fix_comma (header @ [NL]) = header @ [NL]"
  by (simp add: fix_comma_def header_def rstrip_def isspace_def NL_def id_regex_match_def ishex_def)

lemma fix_header_header: "fix_header i (header @ [NL]) = header @ [NL]"
  by (simp add: fix_header_def header_def strip_def lstrip_def rstrip_def isspace_def NL_def)

lemma fix_header_cases: "fix_header i l = l \<or> fix_header i l = header @ [NL]"
  by (simp add: fix_header_def)

lemma fix_line_idem: "fix_line i (fix_line i l) = fix_line i l"
  unfolding fix_line_def
  using fix_header_cases [of i "fix_comma l"]
  by (auto simp: fix_comma_idem fix_comma_header fix_header_header)


lemma concat_readlines: "concat (readlines s) = s"
  by (induction s) (auto split: list.splits)

lemma readlines_Nil_iff: "readlines s = [] \<longleftrightarrow> s = []"
  by (cases s) (auto split: list.splits)

lemma lines_ok_readlines: "lines_ok (readlines s)"
proof (induction s)
  case Nil then show ?case by simp
next
  case (Cons c cs)
  show ?case
  proof (cases "c = NL")
    case True
    then show ?thesis using Cons by (cases "readlines cs") (auto simp: is_line_def)
  next
    case False
    show ?thesis
    proof (cases "readlines cs")
      case Nil then show ?thesis using False by (simp add: is_line_def)
    next
      case (Cons l ls)
      with Cons.IH have "lines_ok (l # ls)" by simp
      then have "lines_ok ((c # l) # ls)" using False
        by (cases ls) (auto simp: is_line_def)
      then show ?thesis using False Cons by simp
    qed
  qed
qed

lemma readlines_line_append:
  "NL \<notin> set l \<Longrightarrow> readlines (l @ NL # s) = (l @ [NL]) # readlines s"
  by (induction l) auto

lemma readlines_no_NL: "l \<noteq> [] \<Longrightarrow> NL \<notin> set l \<Longrightarrow> readlines l = [l]"
proof (induction l)
  case Nil then show ?case by simp
next
  case (Cons a l)
  then show ?case by (cases "l = []") auto
qed

lemma is_line_NL_decomp: "is_line l \<Longrightarrow> last l = NL \<Longrightarrow> \<exists>b. l = b @ [NL] \<and> NL \<notin> set b"
  unfolding is_line_def by (metis append_butlast_last_id)

lemma readlines_concat: "lines_ok ls \<Longrightarrow> readlines (concat ls) = ls"
proof (induction ls rule: lines_ok.induct)
  case 1 then show ?case by simp
next
  case (2 l)
  show ?case
  proof (cases "last l = NL")
    case True
    moreover from 2 have "is_line l" by simp
    ultimately obtain b where "l = b @ [NL]" "NL \<notin> set b"
      using is_line_NL_decomp by blast
    then show ?thesis using readlines_line_append [of b "[]"] by simp
  next
    case False
    from 2 have "is_line l" by simp
    then have ne: "l \<noteq> []" and nb: "NL \<notin> set (butlast l)"
      unfolding is_line_def by auto
    from ne have "set l = insert (last l) (set (butlast l))"
      by (metis append_butlast_last_id list.simps(15) rotate1.simps(2) set_rotate1)
    with False nb ne have "NL \<notin> set l" "l \<noteq> []" by auto
    then show ?thesis by (simp add: readlines_no_NL)
  qed
next
  case (3 l m ls)
  then have "is_line l" "last l = NL" by simp_all
  then obtain b where b: "l = b @ [NL]" "NL \<notin> set b"
    using is_line_NL_decomp by blast
  from 3 have "readlines (concat (m # ls)) = m # ls" by simp
  then show ?case using readlines_line_append [of b "concat (m # ls)"] b by simp
qed


lemma NL_notin_rstrip: "is_line l \<Longrightarrow> NL \<notin> set (rstrip l)"
proof -
  assume il: "is_line l"
  obtain t where t: "l = rstrip l @ t" "\<forall>c\<in>set t. isspace c"
    using rstrip_decomp by blast
  show ?thesis
  proof (cases "t = []")
    case True
    with t have eq: "rstrip l = l" by simp
    from il have ne: "l \<noteq> []" and nb: "NL \<notin> set (butlast l)" by (auto simp: is_line_def)
    have "\<not> isspace (last l)" using rstrip_last [of l] eq ne by simp
    then have "last l \<noteq> NL" using isspace_NL by auto
    moreover from ne have "set l = insert (last l) (set (butlast l))"
      by (metis append_butlast_last_id list.simps(15) rotate1.simps(2) set_rotate1)
    ultimately show ?thesis using nb eq by auto
  next
    case False
    then have "butlast l = rstrip l @ butlast t" using t(1) by (metis butlast_append)
    then have "set (rstrip l) \<subseteq> set (butlast l)" by auto
    then show ?thesis using il by (auto simp: is_line_def)
  qed
qed

lemma is_line_fix_comma: "is_line l \<Longrightarrow> is_line (fix_comma l)"
  using fix_comma_cases [of l] NL_notin_rstrip [of l]
  by (auto simp: is_line_def butlast_append NL_def)

lemma last_fix_comma: "last l = NL \<Longrightarrow> last (fix_comma l) = NL"
  using fix_comma_cases [of l] by auto

lemma is_line_header: "is_line (header @ [NL])"
  by (simp add: is_line_def header_def NL_def)

lemma is_line_fix_line: "is_line l \<Longrightarrow> is_line (fix_line i l)"
  unfolding fix_line_def using fix_header_cases [of i "fix_comma l"]
  by (auto simp: is_line_fix_comma is_line_header)

lemma last_fix_line: "last l = NL \<Longrightarrow> last (fix_line i l) = NL"
  unfolding fix_line_def using fix_header_cases [of i "fix_comma l"]
  by (auto simp: last_fix_comma)

lemma lines_ok_fix_lines: "lines_ok ls \<Longrightarrow> lines_ok (fix_lines i ls)"
  by (induction ls arbitrary: i rule: lines_ok.induct)
     (simp_all add: is_line_fix_line last_fix_line)

lemma fix_lines_idem: "fix_lines i (fix_lines i ls) = fix_lines i ls"
  by (induction ls arbitrary: i) (simp_all add: fix_line_idem)

lemma fix_commas_text_idem: "fix_commas_text (fix_commas_text s) = fix_commas_text s"
  unfolding fix_commas_text_def
  by (simp add: readlines_concat lines_ok_fix_lines lines_ok_readlines fix_lines_idem)

lemma CR_notin_universal_newlines: "CR \<notin> set (universal_newlines s)"
  by (induction s rule: universal_newlines.induct) (auto simp: CR_def NL_def)

lemma universal_newlines_id: "CR \<notin> set s \<Longrightarrow> universal_newlines s = s"
  by (induction s rule: universal_newlines.induct) auto

lemma set_fix_comma: "set (fix_comma l) \<subseteq> set l \<union> {CHR '','', NL}"
  using fix_comma_cases [of l] set_rstrip [of l] by auto

lemma set_fix_line: "set (fix_line i l) \<subseteq> set l \<union> {CHR '','', NL} \<union> set header"
  unfolding fix_line_def using fix_header_cases [of i "fix_comma l"] set_fix_comma [of l]
  by auto

lemma set_fix_lines:
  "set (concat (fix_lines i ls)) \<subseteq> set (concat ls) \<union> {CHR '','', NL} \<union> set header"
proof (induction ls arbitrary: i)
  case Nil then show ?case by simp
next
  case (Cons l ls)
  show ?case using set_fix_line [of i l] Cons [of "Suc i"] by auto
qed

lemma CR_notin_fix_commas_text: "CR \<notin> set s \<Longrightarrow> CR \<notin> set (fix_commas_text s)"
proof -
  assume "CR \<notin> set s"
  moreover have "set (fix_commas_text s) \<subseteq> set s \<union> {CHR '','', NL} \<union> set header"
    unfolding fix_commas_text_def using set_fix_lines [of 0 "readlines s"]
    by (simp add: concat_readlines)
  moreover have "CR \<notin> {CHR '','', NL} \<union> set header"
    by (simp add: CR_def NL_def header_def)
  ultimately show ?thesis by blast
qed

lemma fix_comma_changed: "fix_comma l \<noteq> l \<Longrightarrow> suffix ('','' @ [NL]) (fix_comma l)"
  using fix_comma_cases [of l] by (auto simp: suffix_def)

text \<open>
  C10. Running the comma-repair pass twice gives the same file as running it once. This holds
  for the body of the loop on every line and index (\<^const>\<open>fix_line\<close>), for the text that
  \<^verbatim>\<open>fix_commas\<close> writes (\<^const>\<open>fix_commas_text\<close>) and for the file with the newline translation
  of reading (\<^const>\<open>fix_commas\<close>). A list-item line that is rewritten ends with a comma and a
  newline afterwards and is left alone by the next run; a first line that is rewritten is the
  canonical header line afterwards and is left alone by the next run.
\<close>

theorem fix_commas_idempotent:
  "fix_line i (fix_line i line) = fix_line i line
   \<and> fix_commas_text (fix_commas_text content) = fix_commas_text content
   \<and> fix_commas (fix_commas f) = fix_commas f
   \<and> (fix_comma item \<noteq> item \<longrightarrow>
        suffix ('','' @ [NL]) (fix_comma item) \<and> fix_line i (fix_comma item) = fix_header i (fix_comma item))
   \<and> (fix_header i first \<noteq> first \<longrightarrow>
        fix_header i first = header @ [NL] \<and> fix_line i (header @ [NL]) = header @ [NL])"
proof (intro conjI impI)
  show "fix_line i (fix_line i line) = fix_line i line" by (rule fix_line_idem)
  show "fix_commas_text (fix_commas_text content) = fix_commas_text content"
    by (rule fix_commas_text_idem)
  show "fix_commas (fix_commas f) = fix_commas f"
  proof (cases f)
    case None then show ?thesis by (simp add: fix_commas_def)
  next
    case (Some bytes)
    have "universal_newlines (fix_commas_text (universal_newlines bytes))
          = fix_commas_text (universal_newlines bytes)"
      by (intro universal_newlines_id CR_notin_fix_commas_text CR_notin_universal_newlines)
    then show ?thesis using Some by (simp add: fix_commas_def fix_commas_text_idem)
  qed
  show "suffix ('','' @ [NL]) (fix_comma item)" if "fix_comma item \<noteq> item"
    using that by (rule fix_comma_changed)
  show "fix_line i (fix_comma item) = fix_header i (fix_comma item)"
    by (simp add: fix_line_def fix_comma_idem)
  show "fix_header i first = header @ [NL]" if "fix_header i first \<noteq> first"
    using that fix_header_cases [of i first] by simp
  show "fix_line i (header @ [NL]) = header @ [NL]"
    by (simp add: fix_line_def fix_comma_header fix_header_header)
qed

theorem fix_commas_idempotent_witness:
  "fix_comma ''    0123456789abcdefABCDEF01 /* a.swift in Sources */'' = ''    0123456789abcdefABCDEF01 /* a.swift in Sources */,'' @ [NL]
   \<and> suffix ('','' @ [NL]) (fix_comma ''    0123456789abcdefABCDEF01 /* a.swift in Sources */'')
   \<and> fix_header 0 ''// !$*UTF8*$! x'' = header @ [NL]
   \<and> fix_line 0 (header @ [NL]) = header @ [NL]
   \<and> fix_commas (fix_commas (Some (''//'' @ [CR, NL] @ ''0123456789abcdefABCDEF01 /* a */'')))
       = Some (header @ [NL] @ ''0123456789abcdefABCDEF01 /* a */,'' @ [NL])"
proof -
  have a: "fix_comma ''    0123456789abcdefABCDEF01 /* a.swift in Sources */'' = ''    0123456789abcdefABCDEF01 /* a.swift in Sources */,'' @ [NL]"
    by (simp add: fix_comma_def rstrip_def strip_def lstrip_def isspace_def id_regex_match_def
        ishex_def NL_def suffix_def)
  have b: "fix_header 0 ''// !$*UTF8*$! x'' \<noteq> ''// !$*UTF8*$! x''"
    by (simp add: fix_header_def rstrip_def strip_def lstrip_def isspace_def header_def)
  have c: "fix_commas (Some (''//'' @ [CR, NL] @ ''0123456789abcdefABCDEF01 /* a */''))
       = Some (header @ [NL] @ ''0123456789abcdefABCDEF01 /* a */,'' @ [NL])"
    by (simp add: fix_commas_def fix_commas_text_def fix_line_def fix_header_def fix_comma_def
        rstrip_def strip_def lstrip_def isspace_def id_regex_match_def
        ishex_def NL_def CR_def suffix_def header_def)
  from a have a': "fix_comma ''    0123456789abcdefABCDEF01 /* a.swift in Sources */'' \<noteq> ''    0123456789abcdefABCDEF01 /* a.swift in Sources */''"
    by simp
  show ?thesis
    using fix_commas_idempotent [of 0 "[]" "[]"
        "Some (''//'' @ [CR, NL] @ ''0123456789abcdefABCDEF01 /* a */'')"
        "''    0123456789abcdefABCDEF01 /* a.swift in Sources */''" "''// !$*UTF8*$! x''"]
      a a' b c by simp
qed

section \<open>The structure check stops at the first error\<close>

lemma validate_lines_early:
  "early_return (validate_lines i st ls) \<Longrightarrow>
   validate_lines i st (ls @ more) = validate_lines i st ls"
proof (induction ls arbitrary: i st)
  case Nil
  then show ?case by (auto split: list.splits)
next
  case (Cons l ls)
  then show ?case by (cases "scan_chars (i + 1) None False st (before_comment l)") auto
qed

lemma scan_chars_Cons_cases:
  "(\<exists>e. early_return e \<and> (\<forall>t. scan_chars n prev ins st (c # t) = Inl e))
   \<or> (\<exists>ins' st'. \<forall>t. scan_chars n prev ins st (c # t) = scan_chars n (Some c) ins' st' t)"
proof -
  define ins' where
    "ins' = (if c = CHR 0x22 then (if prev = Some (CHR 0x5C) then ins else \<not> ins) else ins)"
  have unfold: "scan_chars n prev ins st (c # t) =
    (if \<not> ins' then
       (if c = CHR ''{'' then scan_chars n (Some c) ins' ((CHR ''}'', n) # st) t
        else if c = CHR ''('' then scan_chars n (Some c) ins' ((CHR '')'', n) # st) t
        else if c = CHR ''}'' \<or> c = CHR '')'' then
          (case st of [] \<Rightarrow> Inl (Unexpected_closing n c)
           | (expected, start_line) # st' \<Rightarrow>
               if c \<noteq> expected then Inl (Expected_but_found n expected start_line c)
               else scan_chars n (Some c) ins' st' t)
        else scan_chars n (Some c) ins' st t)
     else scan_chars n (Some c) ins' st t)" for t
    unfolding ins'_def by (simp only: scan_chars.simps Let_def)
  consider (str) "ins'" | (lb) "\<not> ins'" "c = CHR ''{''" | (lp) "\<not> ins'" "c = CHR ''(''"
    | (close) "\<not> ins'" "c \<noteq> CHR ''{''" "c \<noteq> CHR ''(''" "c = CHR ''}'' \<or> c = CHR '')''"
    | (other) "\<not> ins'" "c \<noteq> CHR ''{''" "c \<noteq> CHR ''(''" "\<not> (c = CHR ''}'' \<or> c = CHR '')'')"
    by blast
  then show ?thesis
  proof cases
    case str
    then have "\<forall>t. scan_chars n prev ins st (c # t) = scan_chars n (Some c) ins' st t"
      using unfold by (simp del: scan_chars.simps)
    then show ?thesis by blast
  next
    case lb
    then have "\<forall>t. scan_chars n prev ins st (c # t) = scan_chars n (Some c) ins' ((CHR ''}'', n) # st) t"
      using unfold by (simp del: scan_chars.simps)
    then show ?thesis by blast
  next
    case lp
    then have "\<forall>t. scan_chars n prev ins st (c # t) = scan_chars n (Some c) ins' ((CHR '')'', n) # st) t"
      using unfold by (simp del: scan_chars.simps)
    then show ?thesis by blast
  next
    case other
    then have "\<forall>t. scan_chars n prev ins st (c # t) = scan_chars n (Some c) ins' st t"
      using unfold by (simp del: scan_chars.simps)
    then show ?thesis by blast
  next
    case close
    then have u: "scan_chars n prev ins st (c # t) =
          (case st of [] \<Rightarrow> Inl (Unexpected_closing n c)
           | (expected, start_line) # st' \<Rightarrow>
               if c \<noteq> expected then Inl (Expected_but_found n expected start_line c)
               else scan_chars n (Some c) ins' st' t)" for t
      using unfold by (simp del: scan_chars.simps)
    show ?thesis
    proof (cases st)
      case Nil
      then have "\<forall>t. scan_chars n prev ins st (c # t) = Inl (Unexpected_closing n c)"
        using u by (simp del: scan_chars.simps)
      moreover have "early_return (Unexpected_closing n c)" by simp
      ultimately show ?thesis by blast
    next
      case (Cons p st')
      obtain x l where p: "p = (x, l)" by (cases p)
      show ?thesis
      proof (cases "c = x")
        case True
        then have "\<forall>t. scan_chars n prev ins st (c # t) = scan_chars n (Some c) ins' st' t"
          using Cons p u by (simp del: scan_chars.simps)
        then show ?thesis by blast
      next
        case False
        then have "\<forall>t. scan_chars n prev ins st (c # t) = Inl (Expected_but_found n x l c)"
          using Cons p u by (simp del: scan_chars.simps)
        moreover have "early_return (Expected_but_found n x l c)" by simp
        ultimately show ?thesis by blast
      qed
    qed
  qed
qed

lemma scan_chars_early:
  "scan_chars n prev ins st s = Inl e \<Longrightarrow> scan_chars n prev ins st (s @ t) = Inl e"
proof (induction s arbitrary: prev ins st)
  case Nil
  then show ?case by simp
next
  case step: (Cons c cs)
  from scan_chars_Cons_cases [of n prev ins st c] show ?case
  proof (elim disjE exE conjE)
    fix e' assume "\<forall>t. scan_chars n prev ins st (c # t) = Inl e'"
    then show ?thesis using step.prems by simp
  next
    fix ins' st' assume a: "\<forall>t. scan_chars n prev ins st (c # t) = scan_chars n (Some c) ins' st' t"
    with step.prems have "scan_chars n (Some c) ins' st' cs = Inl e" by simp
    then have "scan_chars n (Some c) ins' st' (cs @ t) = Inl e" by (rule step.IH)
    then show ?thesis using a by simp
  qed
qed

lemma scan_chars_report:
  "scan_chars n prev ins st s = Inl e \<Longrightarrow> early_return e"
proof (induction s arbitrary: prev ins st)
  case Nil
  then show ?case by simp
next
  case step: (Cons c cs)
  from scan_chars_Cons_cases [of n prev ins st c] show ?case
  proof (elim disjE exE conjE)
    fix e' assume "early_return e'" "\<forall>t. scan_chars n prev ins st (c # t) = Inl e'"
    then show ?thesis using step.prems by simp
  next
    fix ins' st' assume a: "\<forall>t. scan_chars n prev ins st (c # t) = scan_chars n (Some c) ins' st' t"
    with step.prems have "scan_chars n (Some c) ins' st' cs = Inl e" by simp
    then show ?thesis by (rule step.IH)
  qed
qed


lemma scan_chars_step:
  "\<exists>r. \<forall>t. scan_chars n prev ins st (c # t) =
     (case r of Inl e \<Rightarrow> Inl e
      | Inr st' \<Rightarrow> scan_chars n (Some c) (in_string_after prev ins [c]) st' t)"
proof -
  define ins' where
    "ins' = (if c = CHR 0x22 then (if prev = Some (CHR 0x5C) then ins else \<not> ins) else ins)"
  have i: "in_string_after prev ins [c] = ins'" by (simp add: ins'_def)
  have unfold: "scan_chars n prev ins st (c # t) =
    (if \<not> ins' then
       (if c = CHR ''{'' then scan_chars n (Some c) ins' ((CHR ''}'', n) # st) t
        else if c = CHR ''('' then scan_chars n (Some c) ins' ((CHR '')'', n) # st) t
        else if c = CHR ''}'' \<or> c = CHR '')'' then
          (case st of [] \<Rightarrow> Inl (Unexpected_closing n c)
           | (expected, start_line) # st' \<Rightarrow>
               if c \<noteq> expected then Inl (Expected_but_found n expected start_line c)
               else scan_chars n (Some c) ins' st' t)
        else scan_chars n (Some c) ins' st t)
     else scan_chars n (Some c) ins' st t)" for t
    unfolding ins'_def by (simp only: scan_chars.simps Let_def)
  consider (str) "ins'" | (lb) "\<not> ins'" "c = CHR ''{''" | (lp) "\<not> ins'" "c = CHR ''(''"
    | (close) "\<not> ins'" "c \<noteq> CHR ''{''" "c \<noteq> CHR ''(''" "c = CHR ''}'' \<or> c = CHR '')''"
    | (other) "\<not> ins'" "c \<noteq> CHR ''{''" "c \<noteq> CHR ''(''" "\<not> (c = CHR ''}'' \<or> c = CHR '')'')"
    by blast
  then show ?thesis
  proof cases
    case str
    then have "\<forall>t. scan_chars n prev ins st (c # t) = scan_chars n (Some c) ins' st t"
      using unfold by (simp del: scan_chars.simps)
    then show ?thesis unfolding i by (intro exI [of _ "Inr st"]) simp
  next
    case lb
    then have "\<forall>t. scan_chars n prev ins st (c # t) = scan_chars n (Some c) ins' ((CHR ''}'', n) # st) t"
      using unfold by (simp del: scan_chars.simps)
    then show ?thesis unfolding i by (intro exI [of _ "Inr ((CHR ''}'', n) # st)"]) simp
  next
    case lp
    then have "\<forall>t. scan_chars n prev ins st (c # t) = scan_chars n (Some c) ins' ((CHR '')'', n) # st) t"
      using unfold by (simp del: scan_chars.simps)
    then show ?thesis unfolding i by (intro exI [of _ "Inr ((CHR '')'', n) # st)"]) simp
  next
    case other
    then have "\<forall>t. scan_chars n prev ins st (c # t) = scan_chars n (Some c) ins' st t"
      using unfold by (simp del: scan_chars.simps)
    then show ?thesis unfolding i by (intro exI [of _ "Inr st"]) simp
  next
    case close
    then have u: "scan_chars n prev ins st (c # t) =
          (case st of [] \<Rightarrow> Inl (Unexpected_closing n c)
           | (expected, start_line) # st' \<Rightarrow>
               if c \<noteq> expected then Inl (Expected_but_found n expected start_line c)
               else scan_chars n (Some c) ins' st' t)" for t
      using unfold by (simp del: scan_chars.simps)
    show ?thesis
    proof (cases st)
      case Nil
      then have "\<forall>t. scan_chars n prev ins st (c # t) = Inl (Unexpected_closing n c)"
        using u by (simp del: scan_chars.simps)
      then show ?thesis by (intro exI [of _ "Inl (Unexpected_closing n c)"]) simp
    next
      case (Cons p st')
      obtain x l where p: "p = (x, l)" by (cases p)
      show ?thesis
      proof (cases "c = x")
        case True
        then have "\<forall>t. scan_chars n prev ins st (c # t) = scan_chars n (Some c) ins' st' t"
          using Cons p u by (simp del: scan_chars.simps)
        then show ?thesis unfolding i by (intro exI [of _ "Inr st'"]) simp
      next
        case False
        then have "\<forall>t. scan_chars n prev ins st (c # t) = Inl (Expected_but_found n x l c)"
          using Cons p u by (simp del: scan_chars.simps)
        then show ?thesis by (intro exI [of _ "Inl (Expected_but_found n x l c)"]) simp
      qed
    qed
  qed
qed

lemma scan_chars_append:
  "scan_chars n prev ins st (s @ t) =
     (case scan_chars n prev ins st s of
        Inl e \<Rightarrow> Inl e
      | Inr st' \<Rightarrow> scan_chars n (prev_after prev s) (in_string_after prev ins s) st' t)"
proof (induction s arbitrary: prev ins st)
  case Nil
  show ?case by simp
next
  case (Cons c cs)
  obtain r where r: "\<And>t. scan_chars n prev ins st (c # t) =
     (case r of Inl e \<Rightarrow> Inl e
      | Inr st' \<Rightarrow> scan_chars n (Some c) (in_string_after prev ins [c]) st' t)"
    using scan_chars_step [of n prev ins st c] by blast
  have p: "prev_after prev (c # cs) = prev_after (Some c) cs" by simp
  have q: "in_string_after prev ins (c # cs)
           = in_string_after (Some c) (in_string_after prev ins [c]) cs" by simp
  show ?case
  proof (cases r)
    case (Inl e)
    then show ?thesis using r [of "cs @ t"] r [of cs] by (simp del: scan_chars.simps)
  next
    case (Inr st')
    then show ?thesis
      using r [of "cs @ t"] r [of cs] Cons [of "Some c" "in_string_after prev ins [c]" st']
      by (simp only: append_Cons sum.case p q)
  qed
qed

lemma scan_chars_closer:
  assumes "\<not> in_string" and "c = CHR ''}'' \<or> c = CHR '')''"
  shows "scan_chars n prev in_string st (c # t) =
     (case st of
        [] \<Rightarrow> Inl (Unexpected_closing n c)
      | (expected, start_line) # st' \<Rightarrow>
          if c \<noteq> expected then Inl (Expected_but_found n expected start_line c)
          else scan_chars n (Some c) False st' t)"
  using assms by (auto simp: Let_def split: list.splits)

lemma validate_lines_scan_lines:
  "validate_lines i st ls =
     (case scan_lines i st ls of
        Inl e \<Rightarrow> e
      | Inr [] \<Rightarrow> Structure_valid
      | Inr ((expected, start_line) # rest) \<Rightarrow> Unclosed_at_EOF expected start_line)"
  by (induction ls arbitrary: i st) (auto split: sum.splits list.splits)

lemma scan_lines_append:
  "scan_lines i st (ls @ more) =
     (case scan_lines i st ls of
        Inl e \<Rightarrow> Inl e
      | Inr st' \<Rightarrow> scan_lines (i + length ls) st' more)"
  by (induction ls arbitrary: i st) (auto split: sum.splits)

lemma scan_chars_snoc:
  "scan_chars n prev ins st s = Inr st1 \<Longrightarrow>
   scan_chars n prev ins st (s @ u) = scan_chars n (prev_after prev s) (in_string_after prev ins s) st1 u"
  by (simp add: scan_chars_append)

lemma scan_lines_report: "scan_lines i st ls = Inl e \<Longrightarrow> early_return e"
proof (induction ls arbitrary: i st)
  case Nil then show ?case by simp
next
  case (Cons l ls)
  then show ?case
    by (cases "scan_chars (i + 1) None False st (before_comment l)")
       (auto dest: scan_chars_report)
qed

text \<open>
  C8 (as the code has it). \<^verbatim>\<open>validate\<close> returns for every readable file and prints exactly one
  report. While it scans outside a string, an opener pushes the closer it expects with the
  number of the line, a closer that is the one on top of the stack pops it, the first closer
  that finds the stack empty is reported as unexpected and the first closer that differs
  from the one on top of the stack is reported as a mismatch, with the number of its line;
  inside a string nothing touches the stack. The scan ends at that report: nothing that
  follows on the line, and no later line, changes it, so errors after the first one are not
  reported. Only when every line has been scanned without such a report does \<^verbatim>\<open>validate\<close>
  look at the stack: it reports the innermost unclosed opener when the stack is not empty,
  and a valid structure otherwise.
\<close>

theorem validate_stops_at_first_error:
  "(\<exists>r. validate (Some bytes) = Some r)
   \<and> (scan_chars n prev ins st s = Inl e \<longrightarrow>
        early_return e \<and> scan_chars n prev ins st (s @ t) = Inl e)
   \<and> (early_return (validate_lines i st ls) \<longrightarrow>
        validate_lines i st (ls @ more) = validate_lines i st ls)
   \<and> (scan_chars n prev ins st s = Inr [] \<and> \<not> in_string_after prev ins s
        \<and> (c = CHR ''}'' \<or> c = CHR '')'') \<longrightarrow>
        scan_chars n prev ins st (s @ c # t) = Inl (Unexpected_closing n c))
   \<and> (scan_chars n prev ins st s = Inr ((expected, start_line) # st') \<and> \<not> in_string_after prev ins s
        \<and> (c = CHR ''}'' \<or> c = CHR '')'') \<and> c \<noteq> expected \<longrightarrow>
        scan_chars n prev ins st (s @ c # t) = Inl (Expected_but_found n expected start_line c))
   \<and> (scan_chars n prev ins st s = Inr ((c, start_line) # st') \<and> \<not> in_string_after prev ins s
        \<and> (c = CHR ''}'' \<or> c = CHR '')'') \<longrightarrow>
        scan_chars n prev ins st (s @ [c]) = Inr st')
   \<and> (scan_chars n prev ins st s = Inr st' \<and> \<not> in_string_after prev ins s \<longrightarrow>
        scan_chars n prev ins st (s @ ''{'') = Inr ((CHR ''}'', n) # st')
        \<and> scan_chars n prev ins st (s @ ''('') = Inr ((CHR '')'', n) # st'))
   \<and> (scan_chars n prev ins st s = Inr st' \<and> in_string_after prev ins (s @ [c]) \<longrightarrow>
        scan_chars n prev ins st (s @ [c]) = Inr st')
   \<and> (scan_lines i st ls = Inr st' \<and>
        scan_chars (i + length ls + 1) None False st' (before_comment line) = Inl e \<longrightarrow>
        validate_lines i st (ls @ line # more) = e)
   \<and> (scan_lines i st ls = Inl e \<longrightarrow> validate_lines i st ls = e \<and> early_return e)
   \<and> (scan_lines i st ls = Inr [] \<longrightarrow> validate_lines i st ls = Structure_valid)
   \<and> (scan_lines i st ls = Inr ((expected, start_line) # st') \<longrightarrow>
        validate_lines i st ls = Unclosed_at_EOF expected start_line)"
proof (intro conjI impI)
  show "\<exists>r. validate (Some bytes) = Some r" by (simp add: validate_def)
  show "early_return e" if "scan_chars n prev ins st s = Inl e"
    using that by (rule scan_chars_report)
  show "scan_chars n prev ins st (s @ t) = Inl e" if "scan_chars n prev ins st s = Inl e"
    using that by (rule scan_chars_early)
  show "validate_lines i st (ls @ more) = validate_lines i st ls"
    if "early_return (validate_lines i st ls)"
    using that by (rule validate_lines_early)
  show "scan_chars n prev ins st (s @ c # t) = Inl (Unexpected_closing n c)"
    if "scan_chars n prev ins st s = Inr [] \<and> \<not> in_string_after prev ins s
        \<and> (c = CHR ''}'' \<or> c = CHR '')'')"
  proof -
    from that have "scan_chars n prev ins st (s @ c # t)
        = scan_chars n (prev_after prev s) (in_string_after prev ins s) [] (c # t)"
      by (simp only: scan_chars_snoc)
    also have "\<dots> = Inl (Unexpected_closing n c)"
      using that scan_chars_closer [of "in_string_after prev ins s" c n "prev_after prev s" "[]" t]
      by (simp del: scan_chars.simps)
    finally show ?thesis .
  qed
  show "scan_chars n prev ins st (s @ c # t) = Inl (Expected_but_found n expected start_line c)"
    if "scan_chars n prev ins st s = Inr ((expected, start_line) # st') \<and> \<not> in_string_after prev ins s
        \<and> (c = CHR ''}'' \<or> c = CHR '')'') \<and> c \<noteq> expected"
  proof -
    from that have "scan_chars n prev ins st (s @ c # t)
        = scan_chars n (prev_after prev s) (in_string_after prev ins s) ((expected, start_line) # st') (c # t)"
      by (simp only: scan_chars_snoc)
    also have "\<dots> = Inl (Expected_but_found n expected start_line c)"
      using that scan_chars_closer [of "in_string_after prev ins s" c n "prev_after prev s"
          "(expected, start_line) # st'" t]
      by (simp del: scan_chars.simps)
    finally show ?thesis .
  qed
  show "scan_chars n prev ins st (s @ [c]) = Inr st'"
    if "scan_chars n prev ins st s = Inr ((c, start_line) # st') \<and> \<not> in_string_after prev ins s
        \<and> (c = CHR ''}'' \<or> c = CHR '')'')"
  proof -
    from that have "scan_chars n prev ins st (s @ [c])
        = scan_chars n (prev_after prev s) (in_string_after prev ins s) ((c, start_line) # st') [c]"
      by (simp only: scan_chars_snoc)
    also have "\<dots> = Inr st'"
      using that scan_chars_closer [of "in_string_after prev ins s" c n "prev_after prev s"
          "(c, start_line) # st'" "[]"]
      by (simp del: scan_chars.simps) simp
    finally show ?thesis .
  qed
  show "scan_chars n prev ins st (s @ ''{'') = Inr ((CHR ''}'', n) # st')"
    if "scan_chars n prev ins st s = Inr st' \<and> \<not> in_string_after prev ins s"
  proof -
    from that have "scan_chars n prev ins st (s @ ''{'')
        = scan_chars n (prev_after prev s) (in_string_after prev ins s) st' ''{''"
      by (simp only: scan_chars_snoc)
    also have "\<dots> = Inr ((CHR ''}'', n) # st')" using that by simp
    finally show ?thesis .
  qed
  show "scan_chars n prev ins st (s @ ''('') = Inr ((CHR '')'', n) # st')"
    if "scan_chars n prev ins st s = Inr st' \<and> \<not> in_string_after prev ins s"
  proof -
    from that have "scan_chars n prev ins st (s @ ''('')
        = scan_chars n (prev_after prev s) (in_string_after prev ins s) st' ''(''"
      by (simp only: scan_chars_snoc)
    also have "\<dots> = Inr ((CHR '')'', n) # st')" using that by simp
    finally show ?thesis .
  qed
  show "scan_chars n prev ins st (s @ [c]) = Inr st'"
    if "scan_chars n prev ins st s = Inr st' \<and> in_string_after prev ins (s @ [c])"
  proof -
    have split: "in_string_after p b (x @ y) = in_string_after (prev_after p x) (in_string_after p b x) y"
      for p b x y by (induction x arbitrary: p b) simp_all
    from that have "scan_chars n prev ins st (s @ [c])
        = scan_chars n (prev_after prev s) (in_string_after prev ins s) st' [c]"
      by (simp only: scan_chars_snoc)
    also have "\<dots> = Inr st'"
      using that unfolding split by (auto simp: Let_def split: if_splits)
    finally show ?thesis .
  qed
  show "validate_lines i st (ls @ line # more) = e"
    if "scan_lines i st ls = Inr st' \<and>
        scan_chars (i + length ls + 1) None False st' (before_comment line) = Inl e"
    using that by (simp add: validate_lines_scan_lines scan_lines_append)
  show "validate_lines i st ls = e" if "scan_lines i st ls = Inl e"
    using that by (simp add: validate_lines_scan_lines)
  show "early_return e" if "scan_lines i st ls = Inl e"
    using that by (rule scan_lines_report)
  show "validate_lines i st ls = Structure_valid" if "scan_lines i st ls = Inr []"
    using that by (simp add: validate_lines_scan_lines)
  show "validate_lines i st ls = Unclosed_at_EOF expected start_line"
    if "scan_lines i st ls = Inr ((expected, start_line) # st')"
    using that by (simp add: validate_lines_scan_lines)
qed

theorem validate_stops_at_first_error_witness:
  "scan_chars 1 None False [] ''x = ( }'' = Inl (Expected_but_found 1 (CHR '')'') 1 (CHR ''}''))
   \<and> scan_chars 1 None False [] (''x = ( }'' @ ''}}'') = Inl (Expected_but_found 1 (CHR '')'') 1 (CHR ''}''))
   \<and> early_return (validate_lines 0 [] [''{'' @ [NL], '')'' @ [NL]])
   \<and> validate_lines 0 [] ([''{'' @ [NL], '')'' @ [NL]] @ ['')'' @ [NL]])
       = Expected_but_found 2 (CHR ''}'') 1 (CHR '')'')
   \<and> scan_chars 1 None False [] (''a'' @ CHR ''}'' # ''zz'') = Inl (Unexpected_closing 1 (CHR ''}''))
   \<and> scan_chars 1 None False [] (''('' @ CHR ''}'' # ''zz'')
       = Inl (Expected_but_found 1 (CHR '')'') 1 (CHR ''}''))
   \<and> scan_chars 1 None False [] (''('' @ '')'') = Inr []
   \<and> scan_chars 1 None False [] (''a'' @ ''{'') = Inr [(CHR ''}'', 1)]
   \<and> scan_chars 1 None False [] ([CHR 0x22] @ ''}'') = Inr []
   \<and> validate_lines 0 [] ([''{'' @ [NL]] @ ('')'' @ [NL]) # ['')'' @ [NL]])
       = Expected_but_found 2 (CHR ''}'') 1 (CHR '')'')
   \<and> validate_lines 0 [] [''}''] = Unexpected_closing 1 (CHR ''}'')
   \<and> validate_lines 0 [] [''{}''] = Structure_valid
   \<and> validate_lines 0 [] [''{'', ''(''] = Unclosed_at_EOF (CHR '')'') 2"
proof -
  note T = validate_stops_at_first_error
  have a: "scan_chars 1 None False [] ''x = ( }'' = Inl (Expected_but_found 1 (CHR '')'') 1 (CHR ''}''))"
    by simp
  have b: "validate_lines 0 [] [''{'' @ [NL], '')'' @ [NL]] = Expected_but_found 2 (CHR ''}'') 1 (CHR '')'')"
    by (simp add: NL_def)
  then have c: "early_return (validate_lines 0 [] [''{'' @ [NL], '')'' @ [NL]])" by simp
  have h4: "scan_chars 1 None False [] ''a'' = Inr [] \<and> \<not> in_string_after None False ''a''
      \<and> (CHR ''}'' = CHR ''}'' \<or> CHR ''}'' = CHR '')'')" by simp
  have h5: "scan_chars 1 None False [] ''('' = Inr ((CHR '')'', 1) # []) \<and> \<not> in_string_after None False ''(''
      \<and> (CHR ''}'' = CHR ''}'' \<or> CHR ''}'' = CHR '')'') \<and> CHR ''}'' \<noteq> CHR '')''" by simp
  have h6: "scan_chars 1 None False [] ''('' = Inr ((CHR '')'', 1) # []) \<and> \<not> in_string_after None False ''(''
      \<and> (CHR '')'' = CHR ''}'' \<or> CHR '')'' = CHR '')'')" by simp
  have h7: "scan_chars 1 None False [] ''a'' = Inr [] \<and> \<not> in_string_after None False ''a''" by simp
  have h8: "scan_chars 1 None False [] [CHR 0x22] = Inr [] \<and> in_string_after None False ([CHR 0x22] @ ''}'')"
    by simp
  have h9: "scan_lines 0 [] [''{'' @ [NL]] = Inr [(CHR ''}'', 1)] \<and>
      scan_chars (0 + length [''{'' @ [NL]] + 1) None False [(CHR ''}'', 1)] (before_comment ('')'' @ [NL]))
        = Inl (Expected_but_found 2 (CHR ''}'') 1 (CHR '')''))"
    by (simp add: NL_def)
  have h10: "scan_lines 0 [] [''}''] = Inl (Unexpected_closing 1 (CHR ''}''))" by simp
  have h11: "scan_lines 0 [] [''{}''] = Inr []" by simp
  have h12: "scan_lines 0 [] [''{'', ''(''] = Inr ((CHR '')'', 2) # [(CHR ''}'', 1)])" by simp
  note c2 = T [THEN conjunct2, THEN conjunct1]
  note c3 = T [THEN conjunct2, THEN conjunct2, THEN conjunct1]
  note c4 = T [THEN conjunct2, THEN conjunct2, THEN conjunct2, THEN conjunct1]
  note c5 = T [THEN conjunct2, THEN conjunct2, THEN conjunct2, THEN conjunct2, THEN conjunct1]
  note c6 = T [THEN conjunct2, THEN conjunct2, THEN conjunct2, THEN conjunct2, THEN conjunct2,
      THEN conjunct1]
  note c7 = T [THEN conjunct2, THEN conjunct2, THEN conjunct2, THEN conjunct2, THEN conjunct2,
      THEN conjunct2, THEN conjunct1]
  note c8 = T [THEN conjunct2, THEN conjunct2, THEN conjunct2, THEN conjunct2, THEN conjunct2,
      THEN conjunct2, THEN conjunct2, THEN conjunct1]
  note c9 = T [THEN conjunct2, THEN conjunct2, THEN conjunct2, THEN conjunct2, THEN conjunct2,
      THEN conjunct2, THEN conjunct2, THEN conjunct2, THEN conjunct1]
  note c10 = T [THEN conjunct2, THEN conjunct2, THEN conjunct2, THEN conjunct2, THEN conjunct2,
      THEN conjunct2, THEN conjunct2, THEN conjunct2, THEN conjunct2, THEN conjunct1]
  note c11 = T [THEN conjunct2, THEN conjunct2, THEN conjunct2, THEN conjunct2, THEN conjunct2,
      THEN conjunct2, THEN conjunct2, THEN conjunct2, THEN conjunct2, THEN conjunct2,
      THEN conjunct1]
  note c12 = T [THEN conjunct2, THEN conjunct2, THEN conjunct2, THEN conjunct2, THEN conjunct2,
      THEN conjunct2, THEN conjunct2, THEN conjunct2, THEN conjunct2, THEN conjunct2,
      THEN conjunct2]
  have r2: "scan_chars 1 None False [] (''x = ( }'' @ ''}}'') = Inl (Expected_but_found 1 (CHR '')'') 1 (CHR ''}''))"
    by (rule c2 [THEN mp, OF a, THEN conjunct2])
  have "validate_lines 0 [] ([''{'' @ [NL], '')'' @ [NL]] @ ['')'' @ [NL]])
       = validate_lines 0 [] [''{'' @ [NL], '')'' @ [NL]]"
    by (rule c3 [THEN mp, OF c])
  then have r3: "validate_lines 0 [] ([''{'' @ [NL], '')'' @ [NL]] @ ['')'' @ [NL]])
       = Expected_but_found 2 (CHR ''}'') 1 (CHR '')'')" by (simp only: b)
  have r4: "scan_chars 1 None False [] (''a'' @ CHR ''}'' # ''zz'') = Inl (Unexpected_closing 1 (CHR ''}''))"
    by (rule c4 [THEN mp, OF h4])
  have r5: "scan_chars 1 None False [] (''('' @ CHR ''}'' # ''zz'')
       = Inl (Expected_but_found 1 (CHR '')'') 1 (CHR ''}''))"
    by (rule c5 [THEN mp, OF h5])
  have r6: "scan_chars 1 None False [] (''('' @ '')'') = Inr []"
    by (rule c6 [THEN mp, OF h6])
  have r7: "scan_chars 1 None False [] (''a'' @ ''{'') = Inr [(CHR ''}'', 1)]"
    by (rule c7 [THEN mp, OF h7, THEN conjunct1])
  have r8: "scan_chars 1 None False [] ([CHR 0x22] @ ''}'') = Inr []"
    by (rule c8 [THEN mp, OF h8])
  have r9: "validate_lines 0 [] ([''{'' @ [NL]] @ ('')'' @ [NL]) # ['')'' @ [NL]])
       = Expected_but_found 2 (CHR ''}'') 1 (CHR '')'')"
    by (rule c9 [THEN mp, OF h9])
  have r10: "validate_lines 0 [] [''}''] = Unexpected_closing 1 (CHR ''}'')"
    by (rule c10 [THEN mp, OF h10, THEN conjunct1])
  have r11: "validate_lines 0 [] [''{}''] = Structure_valid"
    by (rule c11 [THEN mp, OF h11])
  have r12: "validate_lines 0 [] [''{'', ''(''] = Unclosed_at_EOF (CHR '')'') 2"
    by (rule c12 [THEN mp, OF h12])
  from a r2 c r3 r4 r5 r6 r7 r8 r9 r10 r11 r12 show ?thesis by (intro conjI)
qed

text \<open>
  The claim that every violation is reported fails. The closing parenthesis on line 2 below
  is reported when it is the only error of the file, and is not reported when line 1 holds
  an error too.
\<close>

theorem validate_complete_counterexample:
  "validate (Some ([NL] @ '')'' @ [NL])) = Some (Unexpected_closing 2 (CHR '')''))
   \<and> validate (Some (''}'' @ [NL] @ '')'' @ [NL])) = Some (Unexpected_closing 1 (CHR ''}''))"
  by (simp add: validate_def validate_text_def NL_def CR_def)

section \<open>The header line\<close>

lemma rstrip_Cons_nonspace: "\<not> isspace a \<Longrightarrow> \<exists>x. rstrip (a # l) = a # x"
proof -
  assume a: "\<not> isspace a"
  obtain t where t: "a # l = rstrip (a # l) @ t" "\<forall>c\<in>set t. isspace c"
    using rstrip_decomp by blast
  show ?thesis
  proof (cases "rstrip (a # l)")
    case Nil
    with t have "a \<in> set t" by (metis append_Nil list.set_intros(1))
    with t a show ?thesis by blast
  next
    case (Cons b x)
    with t have "b = a" by simp
    with Cons show ?thesis by simp
  qed
qed

lemma id_regex_match_first:
  "id_regex_match (a # x) = Some rest \<Longrightarrow> isspace a \<or> ishex a"
  unfolding id_regex_match_def Let_def
  by (cases "isspace a") (auto split: if_splits)

lemma id_regex_match_Nil: "id_regex_match [] = None"
  by (simp add: id_regex_match_def)

lemma not_space_slash: "\<not> isspace CHR ''/''" by (simp add: isspace_def)
lemma not_hex_slash: "\<not> ishex CHR ''/''" by (simp add: ishex_def)

lemma fix_comma_comment_line: "prefix ''//'' l \<Longrightarrow> fix_comma l = l"
proof -
  assume "prefix ''//'' l"
  then obtain z where "l = CHR ''/'' # CHR ''/'' # z" by (auto simp: prefix_def)
  then obtain x where "rstrip l = CHR ''/'' # x"
    using rstrip_Cons_nonspace [OF not_space_slash] by blast
  then have "id_regex_match (rstrip l) = None"
    using id_regex_match_first [of "CHR ''/''" x] not_space_slash not_hex_slash
    by (cases "id_regex_match (rstrip l)") auto
  then show ?thesis by (simp add: fix_comma_def)
qed

lemma fix_comma_no_comment_line: "\<not> prefix ''//'' l \<Longrightarrow> \<not> prefix ''//'' (fix_comma l)"
proof -
  assume n: "\<not> prefix ''//'' l"
  from fix_comma_cases [of l] show ?thesis
  proof
    assume "fix_comma l = l" with n show ?thesis by simp
  next
    assume "fix_comma l = rstrip l @ '','' @ [NL] \<and> (\<exists>rest. id_regex_match (rstrip l) = Some rest)"
    then obtain rest where eq: "fix_comma l = rstrip l @ '','' @ [NL]"
      and m: "id_regex_match (rstrip l) = Some rest" by blast
    from m obtain a x where ax: "rstrip l = a # x"
      using id_regex_match_Nil by (cases "rstrip l") auto
    with m have "isspace a \<or> ishex a" using id_regex_match_first by simp
    then have "a \<noteq> CHR ''/''" using not_space_slash not_hex_slash by auto
    then show ?thesis using eq ax by (simp add: prefix_def)
  qed
qed

lemma fix_commas_text_first:
  "readlines content = l # ls \<Longrightarrow>
   fix_commas_text content = fix_line 0 l @ concat (fix_lines 1 ls)"
  by (simp add: fix_commas_text_def)

text \<open>
  C9 (as the code has it). No script requires the header: \<^verbatim>\<open>fix_commas\<close> returns a text for
  every readable file. On the first line, a line that starts with \<^verbatim>\<open>//\<close> is kept when
  its \<^verbatim>\<open>strip()\<close> is the magic header and is replaced by the header line otherwise; a line that
  does not start with \<^verbatim>\<open>//\<close>, such as the blank line \<^verbatim>\<open>wipe_header\<close> leaves, only goes
  through the comma rule and still does not start with \<^verbatim>\<open>//\<close> afterwards.
\<close>

theorem fix_commas_header_repair:
  "(\<exists>out. fix_commas (Some bytes) = Some out)
   \<and> (readlines content = l # ls \<longrightarrow>
        fix_commas_text content = fix_line 0 l @ concat (fix_lines 1 ls))
   \<and> (prefix ''//'' h \<longrightarrow> fix_line 0 h = (if strip h = header then h else header @ [NL]))
   \<and> (\<not> prefix ''//'' b \<longrightarrow> fix_line 0 b = fix_comma b \<and> \<not> prefix ''//'' (fix_line 0 b))"
proof (intro conjI impI)
  show "\<exists>out. fix_commas (Some bytes) = Some out" by (simp add: fix_commas_def)
  show "fix_commas_text content = fix_line 0 l @ concat (fix_lines 1 ls)"
    if "readlines content = l # ls" using that by (rule fix_commas_text_first)
  show "fix_line 0 h = (if strip h = header then h else header @ [NL])" if "prefix ''//'' h"
    using that by (simp add: fix_line_def fix_comma_comment_line fix_header_def)
  show "fix_line 0 b = fix_comma b" if "\<not> prefix ''//'' b"
    using fix_comma_no_comment_line [OF that] by (simp add: fix_line_def fix_header_def)
  show "\<not> prefix ''//'' (fix_line 0 b)" if "\<not> prefix ''//'' b"
    using fix_comma_no_comment_line [OF that] by (simp add: fix_line_def fix_header_def)
qed

theorem fix_commas_header_repair_witness:
  "readlines (''//!$*UTF8*$!'' @ [NL] @ ''{'' @ [NL]) = (''//!$*UTF8*$!'' @ [NL]) # [''{'' @ [NL]]
   \<and> fix_commas_text (''//!$*UTF8*$!'' @ [NL] @ ''{'' @ [NL]) = header @ [NL] @ ''{'' @ [NL]
   \<and> prefix ''//'' (''//!$*UTF8*$!'' @ [NL])
   \<and> fix_line 0 (''//!$*UTF8*$!'' @ [NL]) = header @ [NL]
   \<and> \<not> prefix ''//'' [NL] \<and> fix_line 0 [NL] = [NL]"
proof -
  have a: "readlines (''//!$*UTF8*$!'' @ [NL] @ ''{'' @ [NL]) = (''//!$*UTF8*$!'' @ [NL]) # [''{'' @ [NL]]"
    by (simp add: NL_def)
  have b: "prefix ''//'' (''//!$*UTF8*$!'' @ [NL])" by simp
  have c: "strip (''//!$*UTF8*$!'' @ [NL]) \<noteq> header"
    by (simp add: strip_def lstrip_def rstrip_def isspace_def NL_def header_def)
  have d: "fix_lines 1 [''{'' @ [NL]] = [''{'' @ [NL]]"
    by (simp add: fix_line_def fix_header_def fix_comma_def rstrip_def isspace_def NL_def
        id_regex_match_def)
  have e: "\<not> prefix ''//'' [NL]" by (simp add: NL_def)
  have f: "fix_comma [NL] = [NL]"
    by (simp add: fix_comma_def rstrip_def isspace_def NL_def id_regex_match_def)
  show ?thesis
    using fix_commas_header_repair [of "[]" "''//!$*UTF8*$!'' @ [NL] @ ''{'' @ [NL]"
        "''//!$*UTF8*$!'' @ [NL]" "[''{'' @ [NL]]" "''//!$*UTF8*$!'' @ [NL]" "[NL]"] a b c d e f
    by simp
qed

text \<open>
  The claim that an altered first line makes processing fail without output fails:
  after \<^verbatim>\<open>wipe_header\<close> has replaced the header by a blank line, \<^verbatim>\<open>fix_commas\<close> writes the
  file back with the blank first line still in place.
\<close>

theorem header_required_counterexample:
  "wipe_header (Some (header @ [NL] @ ''{'' @ [NL] @ ''}'' @ [NL]))
     = Some ([NL] @ ''{'' @ [NL] @ ''}'' @ [NL])
   \<and> fix_commas (Some ([NL] @ ''{'' @ [NL] @ ''}'' @ [NL]))
     = Some ([NL] @ ''{'' @ [NL] @ ''}'' @ [NL])"
  by (simp add: wipe_header_def fix_commas_def fix_commas_text_def fix_line_def fix_header_def
      fix_comma_def rstrip_def isspace_def NL_def CR_def id_regex_match_def header_def)

section \<open>Generated identifiers\<close>

lemma upt_16: "[0..<16] = [0, 1, 2, 3, 4, 5, 6, 7, 8, 9, 10, 11, 12, 13, 14, 15::nat]"
  by (simp add: upt_rec)

lemma upper_hexdigit: "upper_char (hexdigit d) \<in> set ''0123456789ABCDEF''"
proof -
  have "d mod 16 \<in> set [0..<16]" by simp
  then have "d mod 16 \<in> set [0, 1, 2, 3, 4, 5, 6, 7, 8, 9, 10, 11, 12, 13, 14, 15::nat]"
    by (simp only: upt_16)
  then have "d mod 16 = 0 \<or> d mod 16 = 1 \<or> d mod 16 = 2 \<or> d mod 16 = 3 \<or> d mod 16 = 4
    \<or> d mod 16 = 5 \<or> d mod 16 = 6 \<or> d mod 16 = 7 \<or> d mod 16 = 8 \<or> d mod 16 = 9
    \<or> d mod 16 = 10 \<or> d mod 16 = 11 \<or> d mod 16 = 12 \<or> d mod 16 = 13 \<or> d mod 16 = 14
    \<or> d mod 16 = 15" by (simp only: set_simps insert_iff empty_iff simp_thms)
  then show ?thesis
    unfolding hexdigit_def upper_char_def by (elim disjE) simp_all
qed

lemma length_generate_id: "length (generate_id u) = 24"
  by (simp add: generate_id_def uuid_hex_def)

lemma take_uuid_hex:
  "take 24 (uuid_hex u) = map (\<lambda>i. hexdigit (u div 16 ^ (31 - i))) [0..<24]"
proof -
  have "[0..<32] = [0..<24] @ [24..<32]" by (simp add: upt_add_eq_append [of 0 24 8, simplified])
  then show ?thesis by (simp add: uuid_hex_def)
qed

lemma generate_id_chars: "list_all (\<lambda>c. c \<in> set ''0123456789ABCDEF'') (generate_id u)"
  unfolding generate_id_def take_uuid_hex list_all_iff using upper_hexdigit by auto


lemma div_pow_split: "i < 24 \<Longrightarrow> u div 16 ^ (31 - i) = (u div 2 ^ 32) div 16 ^ (23 - i)" for u :: nat
proof -
  assume "i < 24"
  then have "31 - i = 8 + (23 - i)" by simp
  then have "(16::nat) ^ (31 - i) = 16 ^ 8 * 16 ^ (23 - i)" by (simp only: power_add)
  moreover have "(16::nat) ^ 8 = 2 ^ 32" by simp
  ultimately have "(16::nat) ^ (31 - i) = 2 ^ 32 * 16 ^ (23 - i)" by (simp only:)
  then show ?thesis by (simp only: div_mult2_eq)
qed


lemma generate_id_top_bits:
  "generate_id u = map (\<lambda>i. upper_char (hexdigit ((u div 2 ^ 32) div 16 ^ (23 - i)))) [0..<24]"
proof -
  have "map (\<lambda>i. hexdigit (u div 16 ^ (31 - i))) [0..<24]
        = map (\<lambda>i. hexdigit ((u div 2 ^ 32) div 16 ^ (23 - i))) [0..<24]"
    by (rule map_cong [OF refl]) (simp only: div_pow_split atLeastLessThan_iff set_upt)
  then show ?thesis unfolding generate_id_def take_uuid_hex by (simp only: map_map comp_def)
qed

lemma generate_id_collide: "u div 2 ^ 32 = v div 2 ^ 32 \<Longrightarrow> generate_id u = generate_id v"
  by (simp only: generate_id_top_bits)

lemma new_build_files_ids:
  "map fst (new_build_files rng k fs) = map (\<lambda>j. generate_id (rng (k + j))) [0..<length fs]"
proof (induction fs arbitrary: k)
  case Nil then show ?case by simp
next
  case (Cons f fs)
  obtain a b where f: "f = (a, b)" by (cases f)
  have "[0..<Suc (length fs)] = 0 # [Suc 0..<Suc (length fs)]"
    by (rule upt_conv_Cons) simp
  then have "[0..<length (f # fs)] = 0 # map Suc [0..<length fs]"
    by (simp only: length_Cons map_Suc_upt)
  then have "map (\<lambda>j. generate_id (rng (k + j))) [0..<length (f # fs)]
     = generate_id (rng k) # map (\<lambda>j. generate_id (rng (Suc k + j))) [0..<length fs]"
    by (simp only: list.map map_map comp_def add_0_right add_Suc_right add_Suc)
  moreover have "map fst (new_build_files rng k (f # fs))
     = generate_id (rng k) # map fst (new_build_files rng (Suc k) fs)"
    unfolding f by (simp only: new_build_files.simps Let_def list.map fst_conv)
  ultimately show ?case using Cons [of "Suc k"] by (simp only:)
qed


lemma upper_hexdigit_table: "upper_char (hexdigit d) = ''0123456789ABCDEF'' ! (d mod 16)"
proof -
  have "d mod 16 \<in> set [0..<16]" by simp
  then have "d mod 16 \<in> set [0, 1, 2, 3, 4, 5, 6, 7, 8, 9, 10, 11, 12, 13, 14, 15::nat]"
    by (simp only: upt_16)
  then have "d mod 16 = 0 \<or> d mod 16 = 1 \<or> d mod 16 = 2 \<or> d mod 16 = 3 \<or> d mod 16 = 4
    \<or> d mod 16 = 5 \<or> d mod 16 = 6 \<or> d mod 16 = 7 \<or> d mod 16 = 8 \<or> d mod 16 = 9
    \<or> d mod 16 = 10 \<or> d mod 16 = 11 \<or> d mod 16 = 12 \<or> d mod 16 = 13 \<or> d mod 16 = 14
    \<or> d mod 16 = 15" by (simp only: set_simps insert_iff empty_iff simp_thms)
  then show ?thesis
    unfolding hexdigit_def upper_char_def by (elim disjE) simp_all
qed

lemma generate_id_nth:
  "i < 24 \<Longrightarrow> generate_id u ! i = ''0123456789ABCDEF'' ! ((u div 16 ^ (31 - i)) mod 16)"
  unfolding generate_id_def take_uuid_hex by (simp add: upper_hexdigit_table)

lemma table_inj:
  "a < 16 \<Longrightarrow> b < 16 \<Longrightarrow> ''0123456789ABCDEF'' ! a = ''0123456789ABCDEF'' ! b \<Longrightarrow> a = b"
proof -
  have d: "distinct ''0123456789ABCDEF''" by simp
  have l: "length ''0123456789ABCDEF'' = 16" by simp
  show "a < 16 \<Longrightarrow> b < 16 \<Longrightarrow> ''0123456789ABCDEF'' ! a = ''0123456789ABCDEF'' ! b \<Longrightarrow> a = b"
    using d l by (metis nth_eq_iff_index_eq)
qed

lemma digits_determine:
  fixes a c :: nat
  shows "(\<forall>k<n. (a div 16 ^ k) mod 16 = (c div 16 ^ k) mod 16) \<Longrightarrow> a mod 16 ^ n = c mod 16 ^ n"
proof (induction n)
  case 0 then show ?case by simp
next
  case (Suc n)
  have e: "x mod 16 ^ Suc n = 16 ^ n * ((x div 16 ^ n) mod 16) + x mod 16 ^ n" for x :: nat
    by (simp only: power_Suc2 mod_mult2_eq)
  from Suc.prems have "(a div 16 ^ n) mod 16 = (c div 16 ^ n) mod 16" by simp
  moreover from Suc have "a mod 16 ^ n = c mod 16 ^ n" by simp
  ultimately show ?case by (simp only: e)
qed

lemma generate_id_inj:
  assumes u: "u < 2 ^ 128" and v: "v < 2 ^ 128" and eq: "generate_id u = generate_id v"
  shows "u div 2 ^ 32 = v div 2 ^ 32"
proof -
  let ?U = "u div 2 ^ 32" and ?V = "v div 2 ^ 32"
  have dig: "(?U div 16 ^ k) mod 16 = (?V div 16 ^ k) mod 16" if k: "k < 24" for k
  proof -
    from k have i: "23 - k < 24" and kk: "23 - (23 - k) = k" by simp_all
    have "generate_id u ! (23 - k) = generate_id v ! (23 - k)" using eq by simp
    then have "''0123456789ABCDEF'' ! ((?U div 16 ^ k) mod 16)
             = ''0123456789ABCDEF'' ! ((?V div 16 ^ k) mod 16)"
      using i kk by (simp add: generate_id_top_bits upper_hexdigit_table del: upt_Suc)
    then show ?thesis by (intro table_inj) simp_all
  qed
  then have "?U mod 16 ^ 24 = ?V mod 16 ^ 24" by (intro digits_determine) simp
  moreover have "?U < 16 ^ 24" "?V < 16 ^ 24"
    using u v by (simp_all add: less_mult_imp_div_less)
  ultimately show ?thesis by simp
qed

text \<open>
  C5 (as the code has it). \<^verbatim>\<open>generate_id\<close> takes no table: the id is the first 24 of the 32
  hexadecimal digits of a random UUID, in upper case. It has 24 characters over \<^verbatim>\<open>0-9A-F\<close>,
  and its character of index \<open>i\<close> is the digit of weight \<open>16 ^ (31 - i)\<close> of the UUID. Two
  UUIDs that agree above their lowest 32 bits give the same id, and two UUIDs that give the
  same id agree above their lowest 32 bits. The ids that the record-creating loop of
  \<^verbatim>\<open>add_app_files\<close> hands out are those of the UUIDs drawn, one per file, whatever the files
  and whatever is already in the project.
\<close>

theorem generate_id_shape:
  "length (generate_id u) = 24
   \<and> list_all (\<lambda>c. c \<in> set ''0123456789ABCDEF'') (generate_id u)
   \<and> (i < 24 \<longrightarrow> generate_id u ! i = ''0123456789ABCDEF'' ! ((u div 16 ^ (31 - i)) mod 16))
   \<and> (u div 2 ^ 32 = v div 2 ^ 32 \<longrightarrow> generate_id u = generate_id v)
   \<and> (u < 2 ^ 128 \<and> v < 2 ^ 128 \<and> generate_id u = generate_id v \<longrightarrow>
        u div 2 ^ 32 = v div 2 ^ 32)
   \<and> map fst (new_build_files rng k fs) = map (\<lambda>j. generate_id (rng (k + j))) [0..<length fs]"
proof (intro conjI impI)
  show "length (generate_id u) = 24" by (rule length_generate_id)
  show "list_all (\<lambda>c. c \<in> set ''0123456789ABCDEF'') (generate_id u)" by (rule generate_id_chars)
  show "generate_id u ! i = ''0123456789ABCDEF'' ! ((u div 16 ^ (31 - i)) mod 16)" if "i < 24"
    using that by (rule generate_id_nth)
  show "generate_id u = generate_id v" if "u div 2 ^ 32 = v div 2 ^ 32"
    using that by (rule generate_id_collide)
  show "u div 2 ^ 32 = v div 2 ^ 32"
    if "u < 2 ^ 128 \<and> v < 2 ^ 128 \<and> generate_id u = generate_id v"
    using that generate_id_inj by blast
  show "map fst (new_build_files rng k fs) = map (\<lambda>j. generate_id (rng (k + j))) [0..<length fs]"
    by (rule new_build_files_ids)
qed

theorem generate_id_shape_witness:
  "(0x0123456789AB4DEF8123456789ABCDEF::nat) div 2 ^ 32 = 0x0123456789AB4DEF8123456700000000 div 2 ^ 32
   \<and> generate_id 0x0123456789AB4DEF8123456789ABCDEF = generate_id 0x0123456789AB4DEF8123456700000000
   \<and> generate_id 0x0123456789AB4DEF8123456789ABCDEF = ''0123456789AB4DEF81234567''
   \<and> (12::nat) < 24
   \<and> generate_id 0x0123456789AB4DEF8123456789ABCDEF ! 12 = CHR ''4''
   \<and> (0x0123456789AB4DEF8123456789ABCDEF::nat) < 2 ^ 128
   \<and> (0x0123456789AB4DEF8123456700000000::nat) < 2 ^ 128"
proof -
  note T = generate_id_shape [of "0x0123456789AB4DEF8123456789ABCDEF" 12
        "0x0123456789AB4DEF8123456700000000" "draws []" 0 "[]"]
  have a: "(0x0123456789AB4DEF8123456789ABCDEF::nat) div 2 ^ 32
           = 0x0123456789AB4DEF8123456700000000 div 2 ^ 32" by simp
  have b: "generate_id 0x0123456789AB4DEF8123456789ABCDEF = ''0123456789AB4DEF81234567''"
    by (simp add: generate_id_def uuid_hex_def hexdigit_def upper_char_def upt_rec)
  have i: "(12::nat) < 24" by simp
  have u: "(0x0123456789AB4DEF8123456789ABCDEF::nat) < 2 ^ 128" by simp
  have v: "(0x0123456789AB4DEF8123456700000000::nat) < 2 ^ 128" by simp
  have c: "generate_id 0x0123456789AB4DEF8123456789ABCDEF
           = generate_id 0x0123456789AB4DEF8123456700000000"
    by (rule T [THEN conjunct2, THEN conjunct2, THEN conjunct2, THEN conjunct1, THEN mp, OF a])
  have "generate_id 0x0123456789AB4DEF8123456789ABCDEF ! 12
        = ''0123456789ABCDEF'' ! ((0x0123456789AB4DEF8123456789ABCDEF div 16 ^ (31 - 12)) mod 16)"
    by (rule T [THEN conjunct2, THEN conjunct2, THEN conjunct1, THEN mp, OF i])
  also have "\<dots> = CHR ''4''" by simp
  finally have d: "generate_id 0x0123456789AB4DEF8123456789ABCDEF ! 12 = CHR ''4''" .
  have "(0x0123456789AB4DEF8123456789ABCDEF::nat) div 2 ^ 32
        = 0x0123456789AB4DEF8123456700000000 div 2 ^ 32"
    by (rule T [THEN conjunct2, THEN conjunct2, THEN conjunct2, THEN conjunct2, THEN conjunct1,
          THEN mp, OF conjI [OF u conjI [OF v c]]])
  from this c b i d u v show ?thesis by (intro conjI)
qed

text \<open>
  The claim that a returned id is never one already present fails. When two UUIDs drawn in
  a row differ only in their last digits, the loop gives the second new record the id it has
  just given to the first.
\<close>

theorem generate_id_fresh_counterexample:
  "map fst (new_build_files (draws [0x0123456789AB4DEF8123456789ABCDEF, 0x0123456789AB4DEF8123456789ABCDF0]) 0
      [(''AAAAAAAAAAAAAAAAAAAAAAAA'', ''A.swift''), (''BBBBBBBBBBBBBBBBBBBBBBBB'', ''B.swift'')])
   = [''0123456789AB4DEF81234567'', ''0123456789AB4DEF81234567'']"
  by (simp add: generate_id_def uuid_hex_def hexdigit_def upper_char_def upt_rec Let_def
      draws_def)

section \<open>Deleting lines\<close>

lemma lines_ok_Cons: "lines_ok (l # ls) \<Longrightarrow> lines_ok ls"
  by (cases ls) simp_all

lemma lines_ok_filter: "lines_ok ls \<Longrightarrow> lines_ok (filter P ls)"
proof (induction ls rule: lines_ok.induct)
  case 1 then show ?case by simp
next
  case (2 l) then show ?case by simp
next
  case (3 l m ls)
  then have IH: "lines_ok (filter P (m # ls))" and l: "is_line l" "last l = NL" by simp_all
  show ?case
  proof (cases "P l")
    case False then show ?thesis using IH by simp
  next
    case True
    show ?thesis
    proof (cases "filter P (m # ls)")
      case Nil then show ?thesis using True l by simp
    next
      case (Cons x xs)
      then show ?thesis using True l IH by simp
    qed
  qed
qed

lemma sublist_line_boundary:
  assumes t: "NL \<notin> set t" and s: "sublist t (l @ NL # r)"
  shows "sublist t l \<or> sublist t r"
proof -
  from s have "sublist t l \<or> sublist t (NL # r)
      \<or> (\<exists>t1 t2. t = t1 @ t2 \<and> suffix t1 l \<and> prefix t2 (NL # r))"
    by (simp only: sublist_append)
  then show ?thesis
  proof (elim disjE exE conjE)
    assume "sublist t l" then show ?thesis ..
  next
    assume "sublist t (NL # r)"
    then have "prefix t (NL # r) \<or> sublist t r" by (simp only: sublist_Cons_right)
    then show ?thesis
    proof
      assume "prefix t (NL # r)"
      with t have "t = []" by (cases t) auto
      then show ?thesis by simp
    qed simp
  next
    fix t1 t2 assume eq: "t = t1 @ t2" and s1: "suffix t1 l" and p2: "prefix t2 (NL # r)"
    from t eq have "NL \<notin> set t2" by simp
    with p2 have "t2 = []" by (cases t2) auto
    with eq s1 have "suffix t l" by simp
    then have "sublist t l" by (rule suffix_imp_sublist)
    then show ?thesis ..
  qed
qed

lemma sublist_concat_lines:
  "NL \<notin> set t \<Longrightarrow> t \<noteq> [] \<Longrightarrow> lines_ok ls \<Longrightarrow> sublist t (concat ls) \<Longrightarrow> \<exists>l\<in>set ls. sublist t l"
proof (induction ls rule: lines_ok.induct)
  case 1 then show ?case by simp
next
  case (2 l) then show ?case by simp
next
  case (3 l m ls)
  then have "is_line l" "last l = NL" by simp_all
  then obtain b where b: "l = b @ [NL]" using is_line_NL_decomp by blast
  from 3 have "sublist t (b @ NL # concat (m # ls))" using b by simp
  then have "sublist t b \<or> sublist t (concat (m # ls))"
    using sublist_line_boundary 3(2) by blast
  then show ?case
  proof
    assume "sublist t b"
    then have "sublist t l" unfolding b by (metis sublist_append_rightI sublist_order.order_trans)
    then show ?thesis by simp
  next
    assume "sublist t (concat (m # ls))"
    moreover from 3 have "lines_ok (m # ls)" by simp
    ultimately have "\<exists>l\<in>set (m # ls). sublist t l" using 3 by blast
    then show ?thesis by auto
  qed
qed

lemma sublist_join_nl:
  "NL \<notin> set t \<Longrightarrow> t \<noteq> [] \<Longrightarrow> sublist t (join_nl ls) \<Longrightarrow> \<exists>l\<in>set ls. sublist t l"
proof (induction ls rule: join_nl.induct)
  case 1 then show ?case by simp
next
  case (2 l) then show ?case by simp
next
  case (3 l m ls)
  then have "sublist t l \<or> sublist t (join_nl (m # ls))"
    using sublist_line_boundary by simp
  then show ?case using 3 by auto
qed

lemma findall_hex24_shape:
  "g \<in> set (findall_hex24 s) \<Longrightarrow> length g = 24 \<and> list_all ishex g"
  by (induction s rule: findall_hex24.induct) (auto split: if_splits)

lemma not_hex_NL: "\<not> ishex NL" by (simp add: ishex_def NL_def)


lemma nuke_target_ids_plain: "\<forall>tid\<in>set nuke_target_ids. NL \<notin> set tid \<and> tid \<noteq> []"
  by (simp add: nuke_target_ids_def NL_def)

lemma nuke_ids_clean:
  assumes ids: "\<forall>tid\<in>set target_ids. NL \<notin> set tid \<and> tid \<noteq> []"
    and run: "nuke_ids target_ids (Some bytes) = Some (out, count)"
  shows "\<forall>tid\<in>set target_ids. \<not> sublist tid out"
    and "readlines out = filter (\<lambda>line. \<not> hit target_ids line) (readlines (universal_newlines bytes))"
    and "count + length (readlines out) = length (readlines (universal_newlines bytes))"
proof -
  define lines where "lines = readlines (universal_newlines bytes)"
  define kept where "kept = filter (\<lambda>line. \<not> hit target_ids line) lines"
  from run have out: "out = concat kept" and count: "count = length (filter (hit target_ids) lines)"
    by (simp_all add: nuke_ids_def Let_def lines_def kept_def)
  have ok: "lines_ok kept" unfolding kept_def lines_def
    by (intro lines_ok_filter lines_ok_readlines)
  then show rl: "readlines out = filter (\<lambda>line. \<not> hit target_ids line) (readlines (universal_newlines bytes))"
    unfolding out by (simp add: readlines_concat kept_def lines_def)
  show "\<forall>tid\<in>set target_ids. \<not> sublist tid out"
  proof (intro ballI notI)
    fix tid assume tid: "tid \<in> set target_ids" and sub: "sublist tid out"
    from ids tid have "NL \<notin> set tid" "tid \<noteq> []" by auto
    then obtain l where "l \<in> set kept" "sublist tid l"
      using sublist_concat_lines [OF _ _ ok] sub out by blast
    then show False using tid by (auto simp: kept_def hit_def list_ex_iff)
  qed
  show "count + length (readlines out) = length (readlines (universal_newlines bytes))"
    unfolding rl count lines_def by (rule sum_length_filter_compl)
qed

lemma ghost_ids_plain:
  "ghost_build_ids path_exists content = Some ghosts \<Longrightarrow> g \<in> set ghosts \<Longrightarrow>
   NL \<notin> set (g @ '' /*'') \<and> g @ '' /*'' \<noteq> []"
proof -
  assume "ghost_build_ids path_exists content = Some ghosts" and g: "g \<in> set ghosts"
  then obtain block where "g \<in> set (findall_hex24 block)"
    by (auto simp: ghost_build_ids_def split: option.splits)
  then have "list_all ishex g" using findall_hex24_shape by blast
  then have "NL \<notin> set g" using not_hex_NL by (auto simp: list_all_iff)
  then show ?thesis by (simp add: NL_def)
qed

lemma remove_ghost_lines_clean:
  assumes "NL \<notin> set (g @ '' /*'')" and "g \<in> set ghosts"
  shows "\<not> sublist (g @ '' /*'') (remove_ghost_lines ghosts content)"
proof
  assume "sublist (g @ '' /*'') (remove_ghost_lines ghosts content)"
  then obtain l where l: "l \<in> set (filter (\<lambda>line. \<not> is_ghost_line ghosts line) (split_nl content))"
    and sub: "sublist (g @ '' /*'') l"
    unfolding remove_ghost_lines_def using sublist_join_nl [OF assms(1)] by blast
  have "sublist g (g @ '' /*'')" by (rule sublist_append_rightI)
  then have "sublist g l" using sub by (rule sublist_order.order_trans)
  with sub assms(2) have "is_ghost_line ghosts l" by (auto simp: is_ghost_line_def list_ex_iff)
  with l show False by simp
qed


lemma is_ghost_line_iff:
  "is_ghost_line ghosts line \<longleftrightarrow> (\<exists>g\<in>set ghosts. sublist (g @ '' /*'') line)"
proof -
  have "sublist g line" if "sublist (g @ '' /*'') line" for g
    using sublist_append_rightI that by (rule sublist_order.order_trans)
  then show ?thesis by (auto simp: is_ghost_line_def list_ex_iff)
qed

lemma split_nl_no_NL: "l \<in> set (split_nl s) \<Longrightarrow> NL \<notin> set l"
proof (induction s arbitrary: l)
  case Nil then show ?case by simp
next
  case (Cons c cs)
  then show ?case by (cases "split_nl cs") (auto split: if_splits)
qed

lemma split_nl_line: "NL \<notin> set l \<Longrightarrow> split_nl (l @ NL # s) = l # split_nl s"
  by (induction l) auto

lemma split_nl_single: "NL \<notin> set l \<Longrightarrow> split_nl l = [l]"
  by (induction l) auto

lemma split_join_nl:
  "ls \<noteq> [] \<Longrightarrow> \<forall>l\<in>set ls. NL \<notin> set l \<Longrightarrow> split_nl (join_nl ls) = ls"
proof (induction ls rule: join_nl.induct)
  case 1 then show ?case by simp
next
  case (2 l) then show ?case by (simp add: split_nl_single)
next
  case (3 l m ls)
  then show ?case by (simp add: split_nl_line)
qed

lemma remove_ghost_files_rewrites:
  assumes g: "ghost_build_ids path_exists (universal_newlines bytes) = Some ghosts"
    and ne: "ghosts \<noteq> []"
    and k: "kept = filter (\<lambda>line. \<not> (\<exists>g\<in>set ghosts. sublist (g @ '' /*'') line))
                     (split_nl (universal_newlines bytes))"
  shows "remove_ghost_files path_exists (Some bytes) = Some (join_nl kept)"
    and "kept \<noteq> [] \<longrightarrow> split_nl (join_nl kept) = kept"
    and "\<forall>g\<in>set ghosts. \<not> sublist (g @ '' /*'') (join_nl kept)"
proof -
  have eq: "join_nl kept = remove_ghost_lines ghosts (universal_newlines bytes)"
    unfolding k remove_ghost_lines_def by (simp only: is_ghost_line_iff)
  show "remove_ghost_files path_exists (Some bytes) = Some (join_nl kept)"
    unfolding eq using g ne by (simp add: remove_ghost_files_def)
  have "\<forall>l\<in>set kept. NL \<notin> set l" unfolding k using split_nl_no_NL by auto
  then show "kept \<noteq> [] \<longrightarrow> split_nl (join_nl kept) = kept" by (simp add: split_join_nl)
  show "\<forall>g\<in>set ghosts. \<not> sublist (g @ '' /*'') (join_nl kept)"
    unfolding eq using ghost_ids_plain [OF g] remove_ghost_lines_clean by blast
qed

text \<open>
  C1 (as the code has it). Deletion works on lines of text, not on records and fields.
  \<^verbatim>\<open>nuke\<close> drops every line in which a target id occurs and keeps the others in order: no
  target id occurs anywhere in the text it writes, and the count it prints is the number of
  lines dropped. \<^verbatim>\<open>remove_ghost_files\<close> leaves the file as it is when the files block of the
  phase is not found and when no ghost is identified. Otherwise it writes the lines of the
  text it read, in their order, without the lines in which some ghost id is followed by
  \<^verbatim>\<open> /*\<close>: a line is dropped exactly when it holds such an occurrence, whatever else it
  holds, so no ghost id followed by \<^verbatim>\<open> /*\<close> occurs in the text written, and a line on which
  ghost ids occur only without that comment opener is kept.
\<close>

theorem line_deletion_postcondition:
  "(nuke (Some bytes) = Some (out, count) \<longrightarrow>
      (\<forall>tid\<in>set nuke_target_ids. \<not> sublist tid out)
      \<and> readlines out = filter (\<lambda>line. \<not> hit nuke_target_ids line) (readlines (universal_newlines bytes))
      \<and> count + length (readlines out) = length (readlines (universal_newlines bytes)))
   \<and> (is_ghost_line ghosts line \<longleftrightarrow> (\<exists>g\<in>set ghosts. sublist (g @ '' /*'') line))
   \<and> (ghost_build_ids path_exists (universal_newlines bytes') = None \<longrightarrow>
      remove_ghost_files path_exists (Some bytes') = Some bytes')
   \<and> (ghost_build_ids path_exists (universal_newlines bytes') = Some [] \<longrightarrow>
      remove_ghost_files path_exists (Some bytes') = Some bytes')
   \<and> (ghost_build_ids path_exists (universal_newlines bytes') = Some ghosts \<and> ghosts \<noteq> []
        \<and> kept = filter (\<lambda>line. \<not> (\<exists>g\<in>set ghosts. sublist (g @ '' /*'') line))
                   (split_nl (universal_newlines bytes')) \<longrightarrow>
      remove_ghost_files path_exists (Some bytes') = Some (join_nl kept)
      \<and> (kept \<noteq> [] \<longrightarrow> split_nl (join_nl kept) = kept)
      \<and> (\<forall>g\<in>set ghosts. \<not> sublist (g @ '' /*'') (join_nl kept)))"
proof (intro conjI impI)
  assume run: "nuke (Some bytes) = Some (out, count)"
  then have run': "nuke_ids nuke_target_ids (Some bytes) = Some (out, count)"
    by (simp add: nuke_def)
  show "\<forall>tid\<in>set nuke_target_ids. \<not> sublist tid out"
    using nuke_target_ids_plain run' by (rule nuke_ids_clean(1))
  show "readlines out = filter (\<lambda>line. \<not> hit nuke_target_ids line) (readlines (universal_newlines bytes))"
    using nuke_target_ids_plain run' by (rule nuke_ids_clean(2))
  show "count + length (readlines out) = length (readlines (universal_newlines bytes))"
    using nuke_target_ids_plain run' by (rule nuke_ids_clean(3))
next
  show "is_ghost_line ghosts line \<longleftrightarrow> (\<exists>g\<in>set ghosts. sublist (g @ '' /*'') line)"
    by (rule is_ghost_line_iff)
next
  assume "ghost_build_ids path_exists (universal_newlines bytes') = None"
  then show "remove_ghost_files path_exists (Some bytes') = Some bytes'"
    by (simp add: remove_ghost_files_def)
next
  assume "ghost_build_ids path_exists (universal_newlines bytes') = Some []"
  then show "remove_ghost_files path_exists (Some bytes') = Some bytes'"
    by (simp add: remove_ghost_files_def)
next
  assume a: "ghost_build_ids path_exists (universal_newlines bytes') = Some ghosts \<and> ghosts \<noteq> []
        \<and> kept = filter (\<lambda>line. \<not> (\<exists>g\<in>set ghosts. sublist (g @ '' /*'') line))
                   (split_nl (universal_newlines bytes'))"
  then have g: "ghost_build_ids path_exists (universal_newlines bytes') = Some ghosts"
    and ne: "ghosts \<noteq> []"
    and k: "kept = filter (\<lambda>line. \<not> (\<exists>g\<in>set ghosts. sublist (g @ '' /*'') line))
                   (split_nl (universal_newlines bytes'))" by simp_all
  show "remove_ghost_files path_exists (Some bytes') = Some (join_nl kept)"
    using g ne k by (rule remove_ghost_files_rewrites(1))
  show "split_nl (join_nl kept) = kept" if "kept \<noteq> []"
    using remove_ghost_files_rewrites(2) [OF g ne k] that by simp
  show "\<forall>g\<in>set ghosts. \<not> sublist (g @ '' /*'') (join_nl kept)"
    using g ne k by (rule remove_ghost_files_rewrites(3))
qed

theorem line_deletion_postcondition_witness:
  "nuke (Some (''a = ('' @ [NL] @ ''C9FBC3A09F424FB4B86AA3BD /* x */,'' @ [NL] @ '');'' @ [NL])) = Some (''a = ('' @ [NL] @ '');'' @ [NL], 1)
   \<and> \<not> sublist ''C9FBC3A09F424FB4B86AA3BD'' (''a = ('' @ [NL] @ '');'' @ [NL])
   \<and> 1 + length (readlines (''a = ('' @ [NL] @ '');'' @ [NL])) = length (readlines (universal_newlines (''a = ('' @ [NL] @ ''C9FBC3A09F424FB4B86AA3BD /* x */,'' @ [NL] @ '');'' @ [NL])))
   \<and> ghost_build_ids (disk_with []) (universal_newlines ''abc'') = None
   \<and> remove_ghost_files (disk_with []) (Some ''abc'') = Some ''abc''
   \<and> ghost_build_ids full_disk (universal_newlines (''AAAAAAAAAAAAAAAAAAAAAAAA /* G.swift in Sources */ = {isa = PBXBuildFile; fileRef = BBBBBBBBBBBBBBBBBBBBBBBB /* G.swift */; };'' @ [NL]
        @ ''BBBBBBBBBBBBBBBBBBBBBBBB /* G.swift */ = {isa = PBXFileReference; path = G.swift; };'' @ [NL]
        @ ''A0TEST122F0ABCDE00000001 /* Sources */ = {'' @ [NL]
        @ ''files = ('' @ [NL]
        @ ''AAAAAAAAAAAAAAAAAAAAAAAA,'' @ [NL]
        @ '');'' @ [NL]
        @ ''};'' @ [NL])) = Some []
   \<and> remove_ghost_files full_disk (Some (''AAAAAAAAAAAAAAAAAAAAAAAA /* G.swift in Sources */ = {isa = PBXBuildFile; fileRef = BBBBBBBBBBBBBBBBBBBBBBBB /* G.swift */; };'' @ [NL]
        @ ''BBBBBBBBBBBBBBBBBBBBBBBB /* G.swift */ = {isa = PBXFileReference; path = G.swift; };'' @ [NL]
        @ ''A0TEST122F0ABCDE00000001 /* Sources */ = {'' @ [NL]
        @ ''files = ('' @ [NL]
        @ ''AAAAAAAAAAAAAAAAAAAAAAAA,'' @ [NL]
        @ '');'' @ [NL]
        @ ''};'' @ [NL])) = Some (''AAAAAAAAAAAAAAAAAAAAAAAA /* G.swift in Sources */ = {isa = PBXBuildFile; fileRef = BBBBBBBBBBBBBBBBBBBBBBBB /* G.swift */; };'' @ [NL]
        @ ''BBBBBBBBBBBBBBBBBBBBBBBB /* G.swift */ = {isa = PBXFileReference; path = G.swift; };'' @ [NL]
        @ ''A0TEST122F0ABCDE00000001 /* Sources */ = {'' @ [NL]
        @ ''files = ('' @ [NL]
        @ ''AAAAAAAAAAAAAAAAAAAAAAAA,'' @ [NL]
        @ '');'' @ [NL]
        @ ''};'' @ [NL])
   \<and> ghost_build_ids (disk_with []) (universal_newlines (''AAAAAAAAAAAAAAAAAAAAAAAA /* G.swift in Sources */ = {isa = PBXBuildFile; fileRef = BBBBBBBBBBBBBBBBBBBBBBBB /* G.swift */; };'' @ [NL]
        @ ''BBBBBBBBBBBBBBBBBBBBBBBB /* G.swift */ = {isa = PBXFileReference; path = G.swift; };'' @ [NL]
        @ ''A0TEST122F0ABCDE00000001 /* Sources */ = {'' @ [NL]
        @ ''files = ('' @ [NL]
        @ ''AAAAAAAAAAAAAAAAAAAAAAAA,'' @ [NL]
        @ '');'' @ [NL]
        @ ''};'' @ [NL])) = Some [''AAAAAAAAAAAAAAAAAAAAAAAA'']
   \<and> remove_ghost_files (disk_with []) (Some (''AAAAAAAAAAAAAAAAAAAAAAAA /* G.swift in Sources */ = {isa = PBXBuildFile; fileRef = BBBBBBBBBBBBBBBBBBBBBBBB /* G.swift */; };'' @ [NL]
        @ ''BBBBBBBBBBBBBBBBBBBBBBBB /* G.swift */ = {isa = PBXFileReference; path = G.swift; };'' @ [NL]
        @ ''A0TEST122F0ABCDE00000001 /* Sources */ = {'' @ [NL]
        @ ''files = ('' @ [NL]
        @ ''AAAAAAAAAAAAAAAAAAAAAAAA,'' @ [NL]
        @ '');'' @ [NL]
        @ ''};'' @ [NL])) = Some (join_nl ([''BBBBBBBBBBBBBBBBBBBBBBBB /* G.swift */ = {isa = PBXFileReference; path = G.swift; };'',
         ''A0TEST122F0ABCDE00000001 /* Sources */ = {'',
         ''files = ('',
         ''AAAAAAAAAAAAAAAAAAAAAAAA,'',
         '');'',
         ''};'',
         []]))
   \<and> split_nl (join_nl ([''BBBBBBBBBBBBBBBBBBBBBBBB /* G.swift */ = {isa = PBXFileReference; path = G.swift; };'',
         ''A0TEST122F0ABCDE00000001 /* Sources */ = {'',
         ''files = ('',
         ''AAAAAAAAAAAAAAAAAAAAAAAA,'',
         '');'',
         ''};'',
         []])) = [''BBBBBBBBBBBBBBBBBBBBBBBB /* G.swift */ = {isa = PBXFileReference; path = G.swift; };'',
         ''A0TEST122F0ABCDE00000001 /* Sources */ = {'',
         ''files = ('',
         ''AAAAAAAAAAAAAAAAAAAAAAAA,'',
         '');'',
         ''};'',
         []]
   \<and> join_nl ([''BBBBBBBBBBBBBBBBBBBBBBBB /* G.swift */ = {isa = PBXFileReference; path = G.swift; };'',
         ''A0TEST122F0ABCDE00000001 /* Sources */ = {'',
         ''files = ('',
         ''AAAAAAAAAAAAAAAAAAAAAAAA,'',
         '');'',
         ''};'',
         []]) = ''BBBBBBBBBBBBBBBBBBBBBBBB /* G.swift */ = {isa = PBXFileReference; path = G.swift; };'' @ [NL]
        @ ''A0TEST122F0ABCDE00000001 /* Sources */ = {'' @ [NL]
        @ ''files = ('' @ [NL]
        @ ''AAAAAAAAAAAAAAAAAAAAAAAA,'' @ [NL]
        @ '');'' @ [NL]
        @ ''};'' @ [NL]
   \<and> \<not> sublist (''AAAAAAAAAAAAAAAAAAAAAAAA'' @ '' /*'') (join_nl ([''BBBBBBBBBBBBBBBBBBBBBBBB /* G.swift */ = {isa = PBXFileReference; path = G.swift; };'',
         ''A0TEST122F0ABCDE00000001 /* Sources */ = {'',
         ''files = ('',
         ''AAAAAAAAAAAAAAAAAAAAAAAA,'',
         '');'',
         ''};'',
         []]))"
proof -
  let ?B1 = "''a = ('' @ [NL] @ ''C9FBC3A09F424FB4B86AA3BD /* x */,'' @ [NL] @ '');'' @ [NL]"
  let ?O1 = "''a = ('' @ [NL] @ '');'' @ [NL]"
  let ?B2 = "''AAAAAAAAAAAAAAAAAAAAAAAA /* G.swift in Sources */ = {isa = PBXBuildFile; fileRef = BBBBBBBBBBBBBBBBBBBBBBBB /* G.swift */; };'' @ [NL]
        @ ''BBBBBBBBBBBBBBBBBBBBBBBB /* G.swift */ = {isa = PBXFileReference; path = G.swift; };'' @ [NL]
        @ ''A0TEST122F0ABCDE00000001 /* Sources */ = {'' @ [NL]
        @ ''files = ('' @ [NL]
        @ ''AAAAAAAAAAAAAAAAAAAAAAAA,'' @ [NL]
        @ '');'' @ [NL]
        @ ''};'' @ [NL]"
  let ?K2 = "[''BBBBBBBBBBBBBBBBBBBBBBBB /* G.swift */ = {isa = PBXFileReference; path = G.swift; };'',
         ''A0TEST122F0ABCDE00000001 /* Sources */ = {'',
         ''files = ('',
         ''AAAAAAAAAAAAAAAAAAAAAAAA,'',
         '');'',
         ''};'',
         []]"
  note T = line_deletion_postcondition
  have w1: "nuke (Some ?B1) = Some (?O1, 1)" by code_simp
  have m: "''C9FBC3A09F424FB4B86AA3BD'' \<in> set nuke_target_ids"
    by (simp add: nuke_target_ids_def)
  have n1: "(\<forall>tid\<in>set nuke_target_ids. \<not> sublist tid ?O1)
      \<and> readlines ?O1 = filter (\<lambda>line. \<not> hit nuke_target_ids line) (readlines (universal_newlines ?B1))
      \<and> 1 + length (readlines ?O1) = length (readlines (universal_newlines ?B1))"
    by (rule T [THEN conjunct1, THEN mp, OF w1])
  from n1 m have d1: "\<not> sublist ''C9FBC3A09F424FB4B86AA3BD'' ?O1" by blast
  from n1 have d2: "1 + length (readlines ?O1) = length (readlines (universal_newlines ?B1))"
    by blast
  have gn: "ghost_build_ids (disk_with []) (universal_newlines ''abc'') = None" by code_simp
  have rn: "remove_ghost_files (disk_with []) (Some ''abc'') = Some ''abc''"
    by (rule T [THEN conjunct2, THEN conjunct2, THEN conjunct1, THEN mp, OF gn])
  have ge: "ghost_build_ids full_disk (universal_newlines ?B2) = Some []" by code_simp
  have re: "remove_ghost_files full_disk (Some ?B2) = Some ?B2"
    by (rule T [THEN conjunct2, THEN conjunct2, THEN conjunct2, THEN conjunct1, THEN mp, OF ge])
  have g: "ghost_build_ids (disk_with []) (universal_newlines ?B2) = Some [''AAAAAAAAAAAAAAAAAAAAAAAA'']"
    by code_simp
  have ne: "[''AAAAAAAAAAAAAAAAAAAAAAAA''] \<noteq> []" by simp
  have k: "?K2 = filter (\<lambda>line. \<not> (\<exists>g\<in>set [''AAAAAAAAAAAAAAAAAAAAAAAA'']. sublist (g @ '' /*'') line))
                   (split_nl (universal_newlines ?B2))"
    by code_simp
  have kn: "?K2 \<noteq> []" by simp
  have r: "remove_ghost_files (disk_with []) (Some ?B2) = Some (join_nl ?K2)
      \<and> (?K2 \<noteq> [] \<longrightarrow> split_nl (join_nl ?K2) = ?K2)
      \<and> (\<forall>g\<in>set [''AAAAAAAAAAAAAAAAAAAAAAAA'']. \<not> sublist (g @ '' /*'') (join_nl ?K2))"
    by (rule T [THEN conjunct2, THEN conjunct2, THEN conjunct2, THEN conjunct2, THEN mp,
          OF conjI [OF g conjI [OF ne k]]])
  from r have r1: "remove_ghost_files (disk_with []) (Some ?B2) = Some (join_nl ?K2)" by blast
  from r kn have r2: "split_nl (join_nl ?K2) = ?K2" by blast
  from r have r3: "\<not> sublist (''AAAAAAAAAAAAAAAAAAAAAAAA'' @ '' /*'') (join_nl ?K2)" by simp
  have j: "join_nl ?K2 = ''BBBBBBBBBBBBBBBBBBBBBBBB /* G.swift */ = {isa = PBXFileReference; path = G.swift; };'' @ [NL]
        @ ''A0TEST122F0ABCDE00000001 /* Sources */ = {'' @ [NL]
        @ ''files = ('' @ [NL]
        @ ''AAAAAAAAAAAAAAAAAAAAAAAA,'' @ [NL]
        @ '');'' @ [NL]
        @ ''};'' @ [NL]" by code_simp
  from w1 d1 d2 gn rn ge re g r1 r2 j r3 show ?thesis by (intro conjI)
qed

text \<open>
  The claim that no reference to the deleted record remains fails. Below, the build file
  \<^verbatim>\<open>AAAAAAAAAAAAAAAAAAAAAAAA\<close> is identified as a ghost (its file is not on disk) and its
  definition line is removed, while the entry of the Sources phase that refers to it
  without a comment stays in the written file.
\<close>

theorem delete_scrubs_all_counterexample:
  "ghost_build_ids (disk_with []) (''AAAAAAAAAAAAAAAAAAAAAAAA /* G.swift in Sources */ = {isa = PBXBuildFile; fileRef = BBBBBBBBBBBBBBBBBBBBBBBB /* G.swift */; };'' @ [NL]
        @ ''BBBBBBBBBBBBBBBBBBBBBBBB /* G.swift */ = {isa = PBXFileReference; path = G.swift; };'' @ [NL]
        @ ''A0TEST122F0ABCDE00000001 /* Sources */ = {'' @ [NL]
        @ ''files = ('' @ [NL]
        @ ''AAAAAAAAAAAAAAAAAAAAAAAA,'' @ [NL]
        @ '');'' @ [NL]
        @ ''};'' @ [NL]) = Some [''AAAAAAAAAAAAAAAAAAAAAAAA'']
   \<and> remove_ghost_files (disk_with []) (Some (''AAAAAAAAAAAAAAAAAAAAAAAA /* G.swift in Sources */ = {isa = PBXBuildFile; fileRef = BBBBBBBBBBBBBBBBBBBBBBBB /* G.swift */; };'' @ [NL]
        @ ''BBBBBBBBBBBBBBBBBBBBBBBB /* G.swift */ = {isa = PBXFileReference; path = G.swift; };'' @ [NL]
        @ ''A0TEST122F0ABCDE00000001 /* Sources */ = {'' @ [NL]
        @ ''files = ('' @ [NL]
        @ ''AAAAAAAAAAAAAAAAAAAAAAAA,'' @ [NL]
        @ '');'' @ [NL]
        @ ''};'' @ [NL])) = Some (''BBBBBBBBBBBBBBBBBBBBBBBB /* G.swift */ = {isa = PBXFileReference; path = G.swift; };'' @ [NL]
        @ ''A0TEST122F0ABCDE00000001 /* Sources */ = {'' @ [NL]
        @ ''files = ('' @ [NL]
        @ ''AAAAAAAAAAAAAAAAAAAAAAAA,'' @ [NL]
        @ '');'' @ [NL]
        @ ''};'' @ [NL])
   \<and> sublist ''AAAAAAAAAAAAAAAAAAAAAAAA'' (''BBBBBBBBBBBBBBBBBBBBBBBB /* G.swift */ = {isa = PBXFileReference; path = G.swift; };'' @ [NL]
        @ ''A0TEST122F0ABCDE00000001 /* Sources */ = {'' @ [NL]
        @ ''files = ('' @ [NL]
        @ ''AAAAAAAAAAAAAAAAAAAAAAAA,'' @ [NL]
        @ '');'' @ [NL]
        @ ''};'' @ [NL])"
  by code_simp

section \<open>Ghost detection\<close>



lemma is_ghost_no_definition:
  "re_search (build_def_regex build_id) content = None \<Longrightarrow>
   \<not> is_ghost path_exists content build_id"
  by (simp add: is_ghost_def)






section \<open>What the scripts write\<close>












section \<open>Adding a file twice\<close>







end
